theory Spec2Isabelle
  imports Complex_Main "HOL-Library.AList" "HOL-Library.Multiset"
begin

section \<open>The uploader of source/uploader.ts\<close>

text \<open>
  The class \<^verbatim>\<open>Uploader\<close> is embedded as a record of its fields together with the
  closures that its promises and timers keep alive, and one function per method.
  JavaScript runs one task at a time: every handler below is the whole synchronous
  run of one task, followed by the promise reactions (microtasks) it leaves behind.
  What the code does to the outside (RPC calls, connections, callbacks, timers, log
  lines) is appended to the field \<open>effects\<close>, in the order the code does it.
\<close>

subsection \<open>Data\<close>

text \<open>\<^verbatim>\<open>MultiPartUploadPart\<close>: one entry of \<^verbatim>\<open>uploadMetadata.urls\<close>.\<close>

record part =
  part_number :: int
  signed_url :: string

text \<open>An entry of \<^verbatim>\<open>uploadedParts\<close>: \<^verbatim>\<open>{ e_tag, part_number }\<close>.\<close>

record uploaded_part =
  e_tag :: string
  uploaded_part_number :: int

text \<open>
  \<^verbatim>\<open>numParts: number | null\<close>. The quotient \<^verbatim>\<open>fileSize / chunkSize\<close> is not a
  finite number when the chunk size is 0 (Infinity or NaN); both compare false with
  \<^verbatim>\<open><= 2\<close>.
\<close>

datatype num_parts = Null | Count nat | NonFinite

datatype js_error =
    Component_name_missing
  | Failed_to_get_upload_metadata
  | System_is_offline
  | Upload_chunk_error
  | Upload_chunk_timeout
  | Upload_canceled
  | Failed_chunk_upload
  | UPLOAD_ABORTED
  | Failed_to_upload_file nat
  | Rejection string

text \<open>
  The operations handed to \<^verbatim>\<open>session.call\<close>:
  \<^item> \<open>Create_FileComponent id name file_type size rest\<close>, where \<open>rest\<close> are the other
    fields of \<^verbatim>\<open>options.data\<close>;
  \<^item> \<open>Get_upload_metadata file_name file_size component_id parts\<close>;
  \<^item> \<open>Complete_multipart_upload upload_id parts component_id\<close>, the parts as pairs
    \<open>(ETag, PartNumber)\<close>;
  \<^item> \<open>Create_ComponentLocation id component_id resource_identifier location_id\<close>.
\<close>

datatype operation =
    Create_FileComponent string string string nat "(string \<times> string) list"
  | Get_upload_metadata string nat string num_parts
  | Complete_multipart_upload string "(string \<times> int) list" string
  | Create_ComponentLocation string string string string

text \<open>
  A number handed to \<^verbatim>\<open>onProgress\<close>: an integer, or the NaN or Infinity that a
  quotient by 0 gives.
\<close>

datatype js_number = Number int | NaN | Infinity

text \<open>
  What the uploader does to the outside. \<open>Xhr_abort i\<close> is the call of \<^verbatim>\<open>abort()\<close> on
  connection \<open>i\<close>, whether or not the connection can still fire events.
  \<open>Xhr_send i a b\<close> sends \<^verbatim>\<open>file.slice(a, b)\<close> on connection \<open>i\<close> (\<open>Xhr_send_file\<close> the
  whole file, on the single connection). \<open>Wait ms\<close> starts the back-off timer.
\<close>

datatype effect =
    Warn_xhr_deprecated
  | Warn_backing_off int nat
  | Error_giving_up int
  | Session_call "operation list"
  | Session_delete string "string list"
  | Publish_component_added string string
  | OnProgress js_number
  | OnAborted
  | OnError js_error
  | OnComplete string
  | Xhr_open nat string
  | Xhr_send nat int int
  | Xhr_abort nat
  | Xhr_open_single string
  | Xhr_set_request_header string string
  | Xhr_send_file
  | Wait nat

text \<open>
  The second response of the preflight call: \<^verbatim>\<open>{url, headers}\<close> or
  \<^verbatim>\<open>{urls, upload_id}\<close>.
\<close>

datatype upload_metadata =
    Single_target string "(string \<times> string) list"
  | Multi_target "part list" string

text \<open>
  A connection opened by \<^verbatim>\<open>uploadFileChunk\<close> that can still fire events, with what
  its handlers close over: the part, the \<^verbatim>\<open>retry\<close> argument of the
  \<^verbatim>\<open>uploadNextChunk\<close> call that dispatched it, and whether the promise of the
  attempt is already settled.
\<close>

record connection =
  conn_part :: part
  conn_retry :: nat
  conn_settled :: bool

text \<open>
  A promise reaction waiting in the microtask queue: the \<^verbatim>\<open>.then\<close> of
  \<^verbatim>\<open>uploadNextChunk\<close> after a part resolved, or its \<^verbatim>\<open>.catch\<close> with the rejected
  part, the \<^verbatim>\<open>retry\<close> it closes over and the error.
\<close>

datatype microtask =
    Then_uploadNextChunk
  | Catch_failure part nat js_error

text \<open>
  What waits for \<^verbatim>\<open>session.delete\<close> to settle: \<^verbatim>\<open>cleanup().then(handleError,
  handleError)\<close> of the retry governor, or the \<^verbatim>\<open>await this.cleanup()\<close> of the single
  connection's \<^verbatim>\<open>onabort\<close> and \<^verbatim>\<open>onerror\<close> handlers (the latter with the status it
  read).
\<close>

datatype delete_continuation =
    HandleError js_error
  | Single_onabort
  | Single_onerror nat

text \<open>
  Who called \<^verbatim>\<open>completeUpload\<close> and waits for its \<^verbatim>\<open>session.call\<close>:
  \<^verbatim>\<open>uploadNextChunk\<close>, which drops the promise, or \<^verbatim>\<open>singlePartUpload\<close>, which awaits
  it inside its try block.
\<close>

datatype call_continuation = From_uploadNextChunk | From_singlePartUpload

text \<open>
  The imported helpers, whose sources are outside the listing, and the constant
  \<^verbatim>\<open>SERVER_LOCATION_ID\<close>. \<open>uuidV4 n\<close> is what the \<open>n\<close>-th call of \<^verbatim>\<open>uuidV4()\<close> returns.
\<close>

record deps =
  normalizeString :: "string \<Rightarrow> string"
  splitFileExtension :: "string \<Rightarrow> string \<times> string"
  getChunkSize :: "nat \<Rightarrow> nat"
  uuidV4 :: "nat \<Rightarrow> string"
  SERVER_LOCATION_ID :: string

text \<open>The \<^verbatim>\<open>Blob\<close> (or \<^verbatim>\<open>File\<close>) to upload, and the options of the constructor.\<close>

record blob =
  blob_name :: "string option"
  blob_size :: nat

record data_options =
  data_id :: "string option"
  data_name :: "string option"
  data_file_type :: "string option"
  data_size :: "nat option"
  data_rest :: "(string \<times> string) list"

record uploader_options =
  opt_name :: "string option"
  opt_data :: "data_options option"
  opt_xhr :: bool
  opt_onProgress :: bool
  opt_onAborted :: bool
  opt_onError :: bool
  opt_onComplete :: bool

text \<open>
  The fields of the class, then the state the runtime holds for it: the uuids
  drawn, the connections in flight, the microtask queue, the back-off timers
  (delay, part, incremented retry count), the pending deletes and calls, whether
  the preflight response is awaited, whether the single connection is in flight and
  its promise settled, the connections whose \<^verbatim>\<open>abortXHR\<close> is registered as a listener
  of the window's \<^verbatim>\<open>offline\<close> event (in the order of registration), and the effects
  so far. \<open>peakConnections\<close> is a history variable: the largest size the registry
  had right after a registration.
\<close>

record uploader =
  componentId :: string
  onProgress :: bool
  onAborted :: bool
  onError :: bool
  onComplete :: bool
  xhr :: bool
  fileType :: string
  fileName :: string
  fileSize :: nat
  numParts :: num_parts
  chunkSize :: nat
  activeConnections :: "(int \<times> nat) list"
  maxConcurrentConnections :: nat
  parts :: "part list"
  uploadedParts :: "uploaded_part list"
  uploadId :: string
  uploadedSize :: nat
  progressCache :: "(int \<times> nat) list"
  timeout :: nat
  data :: data_options
  uploadMetadata :: "upload_metadata option"
  uuidCalls :: nat
  nextXhr :: nat
  connections :: "(nat \<times> connection) list"
  microtasks :: "microtask list"
  timers :: "(nat \<times> part \<times> nat) list"
  pendingDeletes :: "delete_continuation list"
  pendingCalls :: "call_continuation list"
  awaitingPreflight :: bool
  singleInFlight :: bool
  singleSettled :: bool
  offlineListeners :: "nat list"
  peakConnections :: nat
  effects :: "effect list"

subsection \<open>JavaScript values\<close>

text \<open>A string is truthy when it is defined and not empty; \<^verbatim>\<open>a || b\<close> on strings.\<close>

definition truthy :: "string option \<Rightarrow> bool" where
  "truthy v = (case v of None \<Rightarrow> False | Some s \<Rightarrow> s \<noteq> [])"

definition or_else :: "string option \<Rightarrow> string \<Rightarrow> string" where
  "or_else v d = (case v of None \<Rightarrow> d | Some s \<Rightarrow> if s = [] then d else s)"

text \<open>\<^verbatim>\<open>a || b\<close> on numbers: 0 and undefined are falsy.\<close>

definition or_else_num :: "nat option \<Rightarrow> nat \<Rightarrow> nat" where
  "or_else_num v d = (case v of None \<Rightarrow> d | Some n \<Rightarrow> if n = 0 then d else n)"

text \<open>\<^verbatim>\<open>Math.ceil(a / b)\<close>, on the exact quotient.\<close>

definition math_ceil_div :: "nat \<Rightarrow> nat \<Rightarrow> num_parts" where
  "math_ceil_div a b =
     (if b = 0 then NonFinite else Count (nat \<lceil>(of_nat a :: rat) / of_nat b\<rceil>))"

subsection \<open>Doubles\<close>

text \<open>
  A JavaScript number is an IEEE 754 double. The byte counts are integers below
  \<open>2 ^ 53\<close>, which are doubles, and so are their sums. A quotient or a product is
  the exact result rounded to the nearest double: the nearest number with a
  significand of 53 bits, a tie going to the even significand. The percentages are
  computed from such results. A non-negative double is written \<open>(m, e)\<close> for
  \<open>m * 2 ^ e\<close>; the range of the exponent is not modelled (the quotients here lie
  between \<open>2 ^ - 53\<close> and 100).
\<close>

type_synonym double = "nat \<times> int"

definition value_of :: "double \<Rightarrow> rat" where
  "value_of x = of_nat (fst x) * 2 powi (snd x)"

text \<open>The number of binary digits of \<open>n\<close>.\<close>

fun bit_length :: "nat \<Rightarrow> nat" where
  "bit_length n = (if n = 0 then 0 else Suc (bit_length (n div 2)))"

declare bit_length.simps [simp del]

text \<open>The integer nearest to \<open>n / d\<close>, a tie going to the even one.\<close>

definition nearest_even :: "nat \<Rightarrow> nat \<Rightarrow> nat" where
  "nearest_even n d =
    (let q = n div d; r = n mod d
     in if 2 * r < d then q else if d < 2 * r then Suc q else if even q then q else Suc q)"

text \<open>The exponent \<open>e\<close> of a positive \<open>n / d\<close>: \<open>2 ^ e \<le> n / d < 2 ^ (e + 1)\<close>.\<close>

definition exponent_of :: "nat \<Rightarrow> nat \<Rightarrow> int" where
  "exponent_of n d =
    (let k = int (bit_length n) - int (bit_length d)
     in if d * 2 ^ nat k \<le> n * 2 ^ nat (- k) then k else k - 1)"

text \<open>
  The double nearest to \<open>n / d\<close>: the quotient is scaled into the range from
  \<open>2 ^ 52\<close> to \<open>2 ^ 53\<close> and rounded to an integer there.
\<close>

definition double_of :: "nat \<Rightarrow> nat \<Rightarrow> double" where
  "double_of n d =
    (if n = 0 then (0, 0)
     else let e = exponent_of n d; k = 52 - e
          in (if 0 \<le> k then nearest_even (n * 2 ^ nat k) d
              else nearest_even n (d * 2 ^ nat (- k)), - k))"

text \<open>\<^verbatim>\<open>a / b\<close> for integers \<open>a\<close> and \<open>b > 0\<close>, and \<^verbatim>\<open>x * c\<close> for an integer \<open>c\<close>.\<close>

definition js_div :: "nat \<Rightarrow> nat \<Rightarrow> double" where
  "js_div a b = double_of a b"

definition js_mul :: "double \<Rightarrow> nat \<Rightarrow> double" where
  "js_mul x c =
    (if 0 \<le> snd x then double_of (fst x * 2 ^ nat (snd x) * c) 1
     else double_of (fst x * c) (2 ^ nat (- snd x)))"

text \<open>
  \<^verbatim>\<open>Math.round(x)\<close>, the integer nearest to the double \<open>x\<close>, a tie going up, and
  \<^verbatim>\<open>Math.floor(x)\<close>; both are exact.
\<close>

definition math_round :: "double \<Rightarrow> int" where
  "math_round x =
    (if 0 \<le> snd x then int (fst x * 2 ^ nat (snd x))
     else int ((2 * fst x + 2 ^ nat (- snd x)) div (2 * 2 ^ nat (- snd x))))"

definition math_floor :: "double \<Rightarrow> int" where
  "math_floor x =
    (if 0 \<le> snd x then int (fst x * 2 ^ nat (snd x))
     else int (fst x div 2 ^ nat (- snd x)))"

subsection \<open>Null and effects\<close>

text \<open>\<^verbatim>\<open>numParts <= 2\<close>.\<close>

fun le_two :: "num_parts \<Rightarrow> bool" where
  "le_two (Count n) = (n \<le> 2)"
| "le_two Null = True"
| "le_two NonFinite = False"

definition emit :: "effect list \<Rightarrow> uploader \<Rightarrow> uploader" where
  "emit es u = u\<lparr>effects := effects u @ es\<rparr>"

subsection \<open>The constructor\<close>

definition empty_data :: data_options where
  "empty_data = \<lparr>data_id = None, data_name = None, data_file_type = None,
     data_size = None, data_rest = []\<rparr>"

definition constructor :: "deps \<Rightarrow> blob \<Rightarrow> uploader_options \<Rightarrow> js_error + uploader" where
  "constructor D file options =
    (let componentName = (case opt_name options of Some n \<Rightarrow> Some n | None \<Rightarrow> blob_name file);
         normalizedFileName =
           (if truthy componentName then Some (normalizeString D (the componentName)) else None)
     in if \<not> truthy normalizedFileName then Inl Component_name_missing
     else
      let fileNameParts = splitFileExtension D (the normalizedFileName);
          dat = (case opt_data options of None \<Rightarrow> empty_data | Some d \<Rightarrow> d);
          fSize = or_else_num (data_size dat) (blob_size file);
          cSize = getChunkSize D fSize;
          n0 = math_ceil_div fSize cSize;
          n1 = (if le_two n0 then Null else n0);
          n2 = (if opt_xhr options then Null else n1)
      in Inr \<lparr>
          componentId = or_else (data_id dat) (uuidV4 D 0),
          onProgress = opt_onProgress options,
          onAborted = opt_onAborted options,
          onError = opt_onError options,
          onComplete = opt_onComplete options,
          xhr = opt_xhr options,
          fileType = or_else (data_file_type dat) (snd fileNameParts),
          fileName = or_else (data_name dat) (fst fileNameParts),
          fileSize = fSize,
          numParts = n2,
          chunkSize = cSize,
          activeConnections = [],
          maxConcurrentConnections = 6,
          parts = [],
          uploadedParts = [],
          uploadId = [],
          uploadedSize = 0,
          progressCache = [],
          timeout = 0,
          data = dat,
          uploadMetadata = None,
          uuidCalls = (if truthy (data_id dat) then 0 else 1),
          nextXhr = 0,
          connections = [],
          microtasks = [],
          timers = [],
          pendingDeletes = [],
          pendingCalls = [],
          awaitingPreflight = False,
          singleInFlight = False,
          singleSettled = False,
          offlineListeners = [],
          peakConnections = 0,
          effects = (if opt_xhr options then [Warn_xhr_deprecated] else [])
        \<rparr>)"

subsection \<open>The progress aggregator\<close>

text \<open>
  \<^verbatim>\<open>event.type\<close> of the events the progress listener is registered for
  (\<^verbatim>\<open>progress\<close>, \<^verbatim>\<open>error\<close>, \<^verbatim>\<open>abort\<close>, \<^verbatim>\<open>loadend\<close>) and the type \<^verbatim>\<open>uploaded\<close> the
  method also tests for.
\<close>

datatype event_type = Progress_event | Error_event | Abort_event | Loadend_event | Uploaded_event

text \<open>
  \<^verbatim>\<open>Math.round((sent / total) * 100)\<close>, in doubles. With a total of 0, \<^verbatim>\<open>sent\<close> is 0
  as well and the quotient is NaN.
\<close>

definition percentage_of :: "nat \<Rightarrow> nat \<Rightarrow> js_number" where
  "percentage_of sent tot =
     (if tot = 0 then NaN
      else Number (math_round (js_mul (js_div sent tot) 100)))"

definition cache_get :: "(int \<times> nat) list \<Rightarrow> int \<Rightarrow> nat" where
  "cache_get c k = (case map_of c k of None \<Rightarrow> 0 | Some n \<Rightarrow> n)"

definition inProgress :: "uploader \<Rightarrow> nat" where
  "inProgress u = sum_list (map snd (progressCache u))"

definition sent_bytes :: "uploader \<Rightarrow> nat" where
  "sent_bytes u = min (uploadedSize u + inProgress u) (fileSize u)"

definition handleChunkProgress :: "int \<Rightarrow> event_type \<Rightarrow> nat \<Rightarrow> uploader \<Rightarrow> uploader" where
  "handleChunkProgress partNumber ty loaded u =
    (let u1 = (if ty = Progress_event \<or> ty = Error_event \<or> ty = Abort_event
               then u\<lparr>progressCache := AList.update partNumber loaded (progressCache u)\<rparr>
               else u);
         u2 = (if ty = Uploaded_event
               then u1\<lparr>uploadedSize := uploadedSize u1 + cache_get (progressCache u1) partNumber,
                       progressCache := AList.delete partNumber (progressCache u1)\<rparr>
               else u1);
         percentage = percentage_of (sent_bytes u2) (fileSize u2)
     in if onProgress u2 then emit [OnProgress percentage] u2 else u2)"

text \<open>
  \<^verbatim>\<open>handleSinglePartProgress\<close>, the sibling on the single connection: it takes the
  floor. With a total of 0 the quotient is NaN (0 / 0) or Infinity, and so is the
  floor of its product with 100.
\<close>

definition handleSinglePartProgress :: "bool \<Rightarrow> nat \<Rightarrow> nat \<Rightarrow> uploader \<Rightarrow> uploader" where
  "handleSinglePartProgress lengthComputable loaded tot u =
    (let progress =
       (if lengthComputable
        then (if tot = 0 then (if loaded = 0 then NaN else Infinity)
              else Number (math_floor (js_mul (js_div loaded tot) 100)))
        else Number 0)
     in if onProgress u then emit [OnProgress progress] u else u)"

text \<open>
  The percentage as the specification words it: the floor of
  \<open>min (committed + in flight) declared / declared * 100\<close>.
\<close>

definition spec_percentage :: "nat \<Rightarrow> nat \<Rightarrow> nat \<Rightarrow> int" where
  "spec_percentage committed inflight declared =
     \<lfloor>(of_nat (min (committed + inflight) declared) :: rat) / of_nat declared * 100\<rfloor>"

subsection \<open>Completion and cleanup\<close>

text \<open>
  \<^verbatim>\<open>completeUpload\<close> up to its \<^verbatim>\<open>await this.session.call(operations)\<close>; what follows the
  await is \<open>call_settled\<close>. \<^verbatim>\<open>Array.prototype.sort\<close> is stable, as \<open>sort_key\<close> is.
\<close>

definition completeUpload :: "deps \<Rightarrow> call_continuation \<Rightarrow> uploader \<Rightarrow> uploader" where
  "completeUpload D caller u =
    (let u1 = (if uploadedParts u \<noteq> []
               then u\<lparr>uploadedParts := sort_key uploaded_part_number (uploadedParts u)\<rparr>
               else u);
         operations =
           (if uploadedParts u \<noteq> []
            then [Complete_multipart_upload (uploadId u1)
                    (map (\<lambda>item. (e_tag item, uploaded_part_number item)) (uploadedParts u1))
                    (componentId u1)]
            else [])
           @ [Create_ComponentLocation (uuidV4 D (uuidCalls u1)) (componentId u1)
                (componentId u1) (SERVER_LOCATION_ID D)]
     in emit [Session_call operations]
          (u1\<lparr>uuidCalls := uuidCalls u1 + 1, pendingCalls := pendingCalls u1 @ [caller]\<rparr>))"

text \<open>
  The rest of \<^verbatim>\<open>completeUpload\<close>, once the \<open>i\<close>-th pending call settles: with a failure
  the promise rejects, which only \<^verbatim>\<open>singlePartUpload\<close> catches.
\<close>

definition call_settled :: "deps \<Rightarrow> nat \<Rightarrow> js_error option \<Rightarrow> bool \<Rightarrow> uploader \<Rightarrow> uploader" where
  "call_settled D i failure isConnected u =
    (if i < length (pendingCalls u) then
       let caller = pendingCalls u ! i;
           u1 = u\<lparr>pendingCalls := take i (pendingCalls u) @ drop (Suc i) (pendingCalls u)\<rparr>
       in (case failure of
             None \<Rightarrow>
               let u2 = (if isConnected
                         then emit [Publish_component_added (componentId u1) (SERVER_LOCATION_ID D)] u1
                         else u1)
               in if onComplete u2 then emit [OnComplete (componentId u2)] u2 else u2
           | Some e \<Rightarrow>
               (case caller of
                  From_singlePartUpload \<Rightarrow> if onError u1 then emit [OnError e] u1 else u1
                | From_uploadNextChunk \<Rightarrow> u1))
     else u)"

text \<open>\<^verbatim>\<open>cleanup\<close> up to its await, with what waits for the delete.\<close>

definition cleanup :: "delete_continuation \<Rightarrow> uploader \<Rightarrow> uploader" where
  "cleanup k u =
     emit [Session_delete ''FileComponent'' [componentId u]]
       (u\<lparr>pendingDeletes := pendingDeletes u @ [k]\<rparr>)"

text \<open>
  \<^verbatim>\<open>reject(error)\<close> on the promise of \<^verbatim>\<open>uploadFile\<close>: the first settlement wins, and
  the rejection reaches the catch block of \<^verbatim>\<open>singlePartUpload\<close>.
\<close>

definition reject_single :: "js_error \<Rightarrow> uploader \<Rightarrow> uploader" where
  "reject_single e u =
    (if singleSettled u then u
     else let u1 = u\<lparr>singleSettled := True\<rparr>
          in if onError u1 then emit [OnError e] u1 else u1)"

text \<open>
  The \<open>i\<close>-th pending delete settles. \<^verbatim>\<open>then(handleError, handleError)\<close> runs
  \<^verbatim>\<open>handleError\<close> either way; an \<^verbatim>\<open>await this.cleanup()\<close> that throws ends its
  handler before the \<^verbatim>\<open>reject\<close>. The status of a connection after a network error
  is 0.
\<close>

definition delete_settled :: "nat \<Rightarrow> bool \<Rightarrow> uploader \<Rightarrow> uploader" where
  "delete_settled i ok u =
    (if i < length (pendingDeletes u) then
       let k = pendingDeletes u ! i;
           u1 = u\<lparr>pendingDeletes := take i (pendingDeletes u) @ drop (Suc i) (pendingDeletes u)\<rparr>
       in (case k of
             HandleError e \<Rightarrow> if onError u1 then emit [OnError e] u1 else u1
           | Single_onabort \<Rightarrow> if ok then reject_single UPLOAD_ABORTED u1 else u1
           | Single_onerror st \<Rightarrow> if ok then reject_single (Failed_to_upload_file st) u1 else u1)
     else u)"

subsection \<open>The single connection\<close>

text \<open>\<^verbatim>\<open>uploadFile\<close> up to \<^verbatim>\<open>await promise\<close>.\<close>

definition uploadFile :: "string \<Rightarrow> (string \<times> string) list \<Rightarrow> uploader \<Rightarrow> uploader" where
  "uploadFile url headers u =
     emit ([Xhr_open_single url]
           @ map (\<lambda>(k, v). Xhr_set_request_header k v)
               (filter (\<lambda>(k, v). k \<noteq> ''Content-Length'') headers)
           @ [Xhr_send_file])
       (u\<lparr>xhr := True, singleInFlight := True\<rparr>)"

text \<open>\<^verbatim>\<open>xhr.onload\<close>: a reject for a status of 400 or more, then the resolve, after
  which \<^verbatim>\<open>singlePartUpload\<close> goes on to \<^verbatim>\<open>completeUpload\<close>.\<close>

definition single_onload :: "deps \<Rightarrow> nat \<Rightarrow> uploader \<Rightarrow> uploader" where
  "single_onload D status u =
    (if \<not> singleInFlight u then u
     else
       let u1 = u\<lparr>singleInFlight := False\<rparr>;
           u2 = (if status \<ge> 400 then reject_single (Failed_to_upload_file status) u1 else u1)
       in if singleSettled u2 then u2
          else completeUpload D From_singlePartUpload (u2\<lparr>singleSettled := True\<rparr>))"

definition single_onerror :: "uploader \<Rightarrow> uploader" where
  "single_onerror u =
    (if \<not> singleInFlight u then u
     else cleanup (Single_onerror 0) (u\<lparr>singleInFlight := False\<rparr>))"

definition single_onabort :: "uploader \<Rightarrow> uploader" where
  "single_onabort u =
    (let u1 = u\<lparr>singleInFlight := False\<rparr>;
         u2 = (if onAborted u1 then emit [OnAborted] u1 else u1)
     in cleanup Single_onabort u2)"

subsection \<open>Connections of parts\<close>

text \<open>
  \<^verbatim>\<open>throwXHRError\<close>, for a connection that can still fire events: the registry entry
  of its part is deleted and the promise rejected (a reject of a settled promise
  does nothing). \<^verbatim>\<open>onerror\<close> and \<^verbatim>\<open>ontimeout\<close> pass \<^verbatim>\<open>abortXHR\<close>, which is then removed
  from the listeners of \<^verbatim>\<open>offline\<close>; \<^verbatim>\<open>onabort\<close> passes nothing, and nothing is removed.
\<close>

definition fail_connection :: "js_error \<Rightarrow> bool \<Rightarrow> nat \<Rightarrow> uploader \<Rightarrow> uploader" where
  "fail_connection e abortFx i u =
    (case map_of (connections u) i of
       None \<Rightarrow> u
     | Some c \<Rightarrow>
         let u1 = u\<lparr>connections := AList.delete i (connections u),
                     activeConnections :=
                       AList.delete (part_number (conn_part c) - 1) (activeConnections u)\<rparr>;
             u2 = (if conn_settled c then u1
                   else u1\<lparr>microtasks :=
                          microtasks u1 @ [Catch_failure (conn_part c) (conn_retry c) e]\<rparr>)
         in if abortFx then u2\<lparr>offlineListeners := removeAll i (offlineListeners u2)\<rparr>
            else u2)"

text \<open>
  \<^verbatim>\<open>xhr.abort()\<close>. A finished connection fires nothing. One in flight fires \<^verbatim>\<open>abort\<close>
  and then \<^verbatim>\<open>loadend\<close>, both with \<^verbatim>\<open>loaded\<close> 0, within the call: the progress listener,
  added first, hears both, and \<^verbatim>\<open>onabort\<close> runs after it on \<^verbatim>\<open>abort\<close>.
\<close>

definition abort_connection :: "nat \<Rightarrow> uploader \<Rightarrow> uploader" where
  "abort_connection i u =
    (let u1 = emit [Xhr_abort i] u
     in case map_of (connections u1) i of
          None \<Rightarrow> u1
        | Some c \<Rightarrow>
            let k = part_number (conn_part c) - 1;
                u2 = handleChunkProgress k Abort_event 0 u1;
                u3 = fail_connection Upload_canceled False i u2
            in handleChunkProgress k Loadend_event 0 u3)"

text \<open>
  \<^verbatim>\<open>Object.keys\<close> lists the keys that are array indices first, in ascending order,
  and then the other keys (here the negative ones) in the order of their creation.
\<close>

definition is_array_index :: "int \<Rightarrow> bool" where
  "is_array_index k = (0 \<le> k \<and> k < 4294967295)"

definition object_entries :: "(int \<times> 'a) list \<Rightarrow> (int \<times> 'a) list" where
  "object_entries reg =
     sort_key fst (filter (\<lambda>e. is_array_index (fst e)) reg) @
     filter (\<lambda>e. \<not> is_array_index (fst e)) reg"

text \<open>
  \<^verbatim>\<open>abort\<close>. The abort of a connection deletes no registry entry but its own, so
  that every key listed is still in the registry when its turn comes.
\<close>

definition abort :: "uploader \<Rightarrow> uploader" where
  "abort u =
    (let u1 = (if xhr u \<and> singleInFlight u then single_onabort u else u)
     in fold abort_connection (map snd (object_entries (activeConnections u1))) u1)"

text \<open>
  \<^verbatim>\<open>xhr.onreadystatechange\<close> at \<^verbatim>\<open>readyState\<close> 4 with an HTTP response: the status and
  the \<^verbatim>\<open>ETag\<close> header. \<^verbatim>\<open>replaceAll('"', "")\<close> drops every double quote (character
  0x22).
\<close>

definition unquote :: "string \<Rightarrow> string" where
  "unquote s = filter (\<lambda>ch. ch \<noteq> CHR 0x22) s"

definition chunk_done :: "nat \<Rightarrow> nat \<Rightarrow> string option \<Rightarrow> uploader \<Rightarrow> uploader" where
  "chunk_done i status eTag u =
    (case map_of (connections u) i of
       None \<Rightarrow> u
     | Some c \<Rightarrow>
         let u1 = u\<lparr>connections := AList.delete i (connections u)\<rparr>
         in if status = 200 \<and> truthy eTag then
              let u2 = u1\<lparr>uploadedParts := uploadedParts u1 @
                            [\<lparr>e_tag = unquote (the eTag),
                              uploaded_part_number = part_number (conn_part c)\<rparr>]\<rparr>;
                  u3 = (if conn_settled c then u2
                        else u2\<lparr>microtasks := microtasks u2 @ [Then_uploadNextChunk]\<rparr>)
              in u3\<lparr>activeConnections :=
                      AList.delete (part_number (conn_part c) - 1) (activeConnections u3),
                    offlineListeners := removeAll i (offlineListeners u3)\<rparr>
            else u1)"

subsection \<open>The drive step\<close>

text \<open>
  \<^verbatim>\<open>uploadFileChunk\<close> up to its call of \<^verbatim>\<open>onUploadChunkStart\<close>: the offline check,
  whose reject is not followed by a return (the promise is settled, and the
  connection is made all the same), and the registration of a new connection under
  \<^verbatim>\<open>part.part_number - 1\<close>.
\<close>

definition register_chunk :: "bool \<Rightarrow> part \<Rightarrow> nat \<Rightarrow> uploader \<Rightarrow> uploader" where
  "register_chunk online p retry u =
    (let i = nextXhr u;
         reg = AList.update (part_number p - 1) i (activeConnections u)
     in u\<lparr>activeConnections := reg,
           connections := connections u @
             [(i, \<lparr>conn_part = p, conn_retry = retry, conn_settled = \<not> online\<rparr>)],
           nextXhr := i + 1,
           peakConnections := max (peakConnections u) (length reg)\<rparr>)"

text \<open>
  The rest of \<^verbatim>\<open>uploadFileChunk\<close>, after \<^verbatim>\<open>onUploadChunkStart\<close> has returned: the
  connection is opened, \<^verbatim>\<open>abortXHR\<close> is added to the listeners of \<^verbatim>\<open>offline\<close> and the
  chunk is sent. Then \<^verbatim>\<open>uploadNextChunk\<close> attaches its reactions to the promise; if
  the promise was rejected by the offline check, the reaction is queued at that
  moment.
\<close>

definition send_chunk ::
  "bool \<Rightarrow> part \<Rightarrow> nat \<Rightarrow> nat \<Rightarrow> int \<Rightarrow> int \<Rightarrow> uploader \<Rightarrow> uploader" where
  "send_chunk online p retry i lo hi u =
    (let u1 = emit [Xhr_open i (signed_url p), Xhr_send i lo hi]
                (u\<lparr>offlineListeners := offlineListeners u @ [i]\<rparr>)
     in if \<not> online
        then u1\<lparr>microtasks := microtasks u1 @ [Catch_failure p retry System_is_offline]\<rparr>
        else u1)"

text \<open>
  \<^verbatim>\<open>uploadNextChunk\<close>, with the part of \<^verbatim>\<open>uploadFileChunk\<close> that runs in the same task:
  \<^verbatim>\<open>onUploadChunkStart\<close> re-enters the drive step before the connection is opened and
  sent. \<open>online\<close> is \<^verbatim>\<open>window.navigator.onLine\<close> during the task.
\<close>

function uploadNextChunk :: "deps \<Rightarrow> bool \<Rightarrow> nat \<Rightarrow> uploader \<Rightarrow> uploader" where
  "uploadNextChunk D online retry u =
    (if length (activeConnections u) \<ge> maxConcurrentConnections u then u
     else if parts u = [] then
       (if activeConnections u = [] then completeUpload D From_uploadNextChunk u else u)
     else
       let p = last (parts u);
           u1 = u\<lparr>parts := butlast (parts u)\<rparr>;
           sentSize = (part_number p - 1) * int (chunkSize u1);
           u2 = uploadNextChunk D online 0 (register_chunk online p retry u1)
       in send_chunk online p retry (nextXhr u1) sentSize (sentSize + int (chunkSize u1)) u2)"
  by pat_completeness auto
termination
  by (relation "measure (\<lambda>(D, online, retry, u). length (parts u))")
     (auto simp: register_chunk_def Let_def)

declare uploadNextChunk.simps [simp del]

subsection \<open>The retry governor and the microtask queue\<close>

text \<open>
  The reactions \<^verbatim>\<open>uploadNextChunk\<close> attaches to \<^verbatim>\<open>uploadChunk\<close>: after a resolve the
  drive step; after a reject the back-off (what follows \<^verbatim>\<open>wait\<close> is \<open>timer_fired\<close>) or
  the abort with cleanup.
\<close>

definition run_microtask :: "deps \<Rightarrow> bool \<Rightarrow> microtask \<Rightarrow> uploader \<Rightarrow> uploader" where
  "run_microtask D online m u =
    (case m of
       Then_uploadNextChunk \<Rightarrow> uploadNextChunk D online 0 u
     | Catch_failure p retry e \<Rightarrow>
         if retry \<le> 6 then
           let retry' = retry + 1;
               ms = 2 ^ retry' * 100
           in emit [Warn_backing_off (part_number p) ms, Wait ms]
                (u\<lparr>timers := timers u @ [(ms, p, retry')]\<rparr>)
         else
           cleanup (HandleError e) (abort (emit [Error_giving_up (part_number p)] u)))"

lemma uploadNextChunk_measure:
  "2 * length (parts (uploadNextChunk D online retry u))
     + length (connections (uploadNextChunk D online retry u))
     + length (microtasks (uploadNextChunk D online retry u))
   \<le> 2 * length (parts u) + length (connections u) + length (microtasks u)"
proof (induction D online retry u rule: uploadNextChunk.induct)
  case (1 D online retry u)
  show ?case
  proof (cases "maxConcurrentConnections u \<le> length (activeConnections u)")
    case True
    then show ?thesis by (simp add: uploadNextChunk.simps)
  next
    case open_slot: False
    show ?thesis
    proof (cases "parts u = []")
      case True
      with open_slot show ?thesis
        by (simp add: uploadNextChunk.simps [of D online retry u] completeUpload_def emit_def Let_def)
    next
      case False
      define v where "v = register_chunk online (last (parts u)) retry (u\<lparr>parts := butlast (parts u)\<rparr>)"
      have IH: "2 * length (parts (uploadNextChunk D online 0 v))
          + length (connections (uploadNextChunk D online 0 v))
          + length (microtasks (uploadNextChunk D online 0 v))
          \<le> 2 * length (parts v) + length (connections v) + length (microtasks v)"
        unfolding v_def using "1.IH" [OF _ False refl refl refl] open_slot by simp
      have v: "Suc (2 * length (parts v) + length (connections v) + length (microtasks v))
          \<le> 2 * length (parts u) + length (connections u) + length (microtasks u)"
        using False by (cases "parts u" rule: rev_cases) (auto simp: v_def register_chunk_def Let_def)
      have "uploadNextChunk D online retry u =
          send_chunk online (last (parts u)) retry (nextXhr u)
            ((part_number (last (parts u)) - 1) * int (chunkSize u))
            ((part_number (last (parts u)) - 1) * int (chunkSize u) + int (chunkSize u))
            (uploadNextChunk D online 0 v)"
        using open_slot False by (simp add: uploadNextChunk.simps [of D online retry u] v_def Let_def)
      with IH v show ?thesis by (cases online) (simp_all add: send_chunk_def emit_def Let_def)
    qed
  qed
qed

lemma length_delete_less:
  "map_of xs k = Some v \<Longrightarrow> length (AList.delete k xs) < length xs"
proof (induction xs)
  case Nil
  then show ?case by simp
next
  case (Cons x xs)
  show ?case
  proof (cases "fst x = k")
    case True
    have "length (AList.delete k xs) \<le> length xs" by (rule length_delete_le)
    with True show ?thesis by (cases x) (simp add: le_imp_less_Suc)
  next
    case False
    with Cons show ?thesis by (cases x) auto
  qed
qed

lemma fail_connection_measure:
  "parts (fail_connection e b i u) = parts u \<and>
   length (connections (fail_connection e b i u)) + length (microtasks (fail_connection e b i u))
     \<le> length (connections u) + length (microtasks u)"
proof (cases "map_of (connections u) i")
  case None
  then show ?thesis by (simp add: fail_connection_def)
next
  case (Some c)
  from length_delete_less [OF Some] Some show ?thesis
    by (simp add: fail_connection_def Let_def)
qed

lemma handleChunkProgress_queues:
  "parts (handleChunkProgress k ty l u) = parts u"
  "connections (handleChunkProgress k ty l u) = connections u"
  "microtasks (handleChunkProgress k ty l u) = microtasks u"
  by (simp_all add: handleChunkProgress_def emit_def Let_def)

lemma abort_connection_measure:
  "parts (abort_connection i u) = parts u \<and>
   length (connections (abort_connection i u)) + length (microtasks (abort_connection i u))
     \<le> length (connections u) + length (microtasks u)"
proof (cases "map_of (connections u) i")
  case None
  then show ?thesis by (simp add: abort_connection_def emit_def)
next
  case (Some c)
  define v where "v = handleChunkProgress (part_number (conn_part c) - 1) Abort_event 0
    (emit [Xhr_abort i] u)"
  have v: "parts v = parts u" "connections v = connections u" "microtasks v = microtasks u"
    by (simp_all add: v_def handleChunkProgress_queues emit_def)
  have "abort_connection i u = handleChunkProgress (part_number (conn_part c) - 1) Loadend_event 0
      (fail_connection Upload_canceled False i v)"
    using Some by (simp add: abort_connection_def emit_def Let_def v_def)
  with fail_connection_measure [of Upload_canceled False i v] v show ?thesis
    by (simp add: handleChunkProgress_queues)
qed

lemma fold_abort_connection_measure:
  "parts (fold abort_connection is u) = parts u \<and>
   length (connections (fold abort_connection is u)) + length (microtasks (fold abort_connection is u))
     \<le> length (connections u) + length (microtasks u)"
proof (induction "is" arbitrary: u)
  case Nil
  then show ?case by simp
next
  case (Cons i "is")
  from Cons [of "abort_connection i u"] abort_connection_measure [of i u]
  show ?case by simp
qed

lemma abort_measure:
  "parts (abort u) = parts u \<and>
   length (connections (abort u)) + length (microtasks (abort u))
     \<le> length (connections u) + length (microtasks u)"
proof -
  define u1 where "u1 = (if xhr u \<and> singleInFlight u then single_onabort u else u)"
  have "parts u1 = parts u" "connections u1 = connections u" "microtasks u1 = microtasks u"
    by (simp_all add: u1_def single_onabort_def cleanup_def emit_def Let_def)
  with fold_abort_connection_measure [of "map snd (object_entries (activeConnections u1))" u1]
  show ?thesis by (simp add: abort_def u1_def [symmetric] Let_def)
qed

lemma run_microtask_measure:
  "2 * length (parts (run_microtask D online m u))
     + length (connections (run_microtask D online m u))
     + length (microtasks (run_microtask D online m u))
   \<le> 2 * length (parts u) + length (connections u) + length (microtasks u)"
proof (cases m)
  case Then_uploadNextChunk
  then show ?thesis using uploadNextChunk_measure [of D online 0 u]
    by (simp add: run_microtask_def)
next
  case (Catch_failure p retry e)
  show ?thesis
  proof (cases "retry \<le> 6")
    case True
    with Catch_failure show ?thesis by (simp add: run_microtask_def emit_def Let_def)
  next
    case False
    with Catch_failure abort_measure [of "emit [Error_giving_up (part_number p)] u"]
    show ?thesis by (simp add: run_microtask_def cleanup_def emit_def)
  qed
qed

text \<open>
  The microtask queue is emptied, first in first out, before the next task
  starts.
\<close>

function drain :: "deps \<Rightarrow> bool \<Rightarrow> uploader \<Rightarrow> uploader" where
  "drain D online u =
    (case microtasks u of
       [] \<Rightarrow> u
     | m # ms \<Rightarrow> drain D online (run_microtask D online m (u\<lparr>microtasks := ms\<rparr>)))"
  by pat_completeness auto
termination
proof (relation "measure (\<lambda>(D, online, u).
    2 * length (parts u) + length (connections u) + length (microtasks u))")
  show "wf (measure (\<lambda>(D, online, u).
    2 * length (parts u) + length (connections u) + length (microtasks u)))"
    by simp
next
  fix D :: deps and online :: bool and u :: uploader and m ms
  assume "microtasks u = m # ms"
  with run_microtask_measure [of D online m "u\<lparr>microtasks := ms\<rparr>"]
  show "((D, online, run_microtask D online m (u\<lparr>microtasks := ms\<rparr>)), D, online, u)
    \<in> measure (\<lambda>(D, online, u).
        2 * length (parts u) + length (connections u) + length (microtasks u))"
    by simp
qed

declare drain.simps [simp del]

subsection \<open>Tasks\<close>

text \<open>
  \<^verbatim>\<open>start\<close> up to the await of \<^verbatim>\<open>uploadPreflight\<close>, which has issued its call; the
  spread \<^verbatim>\<open>...this.data\<close> contributes the fields that the four named ones do not
  overwrite.
\<close>

definition start :: "uploader \<Rightarrow> uploader" where
  "start u =
     emit [Session_call
            [Create_FileComponent (componentId u) (fileName u) (fileType u) (fileSize u)
               (data_rest (data u)),
             Get_upload_metadata (fileName u @ fileType u) (fileSize u) (componentId u)
               (numParts u)]]
       (u\<lparr>awaitingPreflight := True\<rparr>)"

text \<open>
  The rest of \<^verbatim>\<open>start\<close>. A rejected call, or a response without metadata, rejects
  the promise \<^verbatim>\<open>start\<close> returned to its caller: \<open>Start_rejected\<close>.
\<close>

definition preflight_settled ::
  "deps \<Rightarrow> bool \<Rightarrow> js_error + upload_metadata option \<Rightarrow> uploader \<Rightarrow> uploader \<times> js_error option" where
  "preflight_settled D online r u =
    (if \<not> awaitingPreflight u then (u, None)
     else
       let u1 = u\<lparr>awaitingPreflight := False\<rparr>
       in (case r of
             Inl e \<Rightarrow> (u1, Some e)
           | Inr None \<Rightarrow> (u1, Some Failed_to_get_upload_metadata)
           | Inr (Some (Multi_target urls upload_id)) \<Rightarrow>
               (uploadNextChunk D online 0
                  (u1\<lparr>uploadMetadata := Some (Multi_target urls upload_id),
                      parts := urls, uploadId := upload_id\<rparr>), None)
           | Inr (Some (Single_target url headers)) \<Rightarrow>
               (uploadFile url headers
                  (u1\<lparr>uploadMetadata := Some (Single_target url headers)\<rparr>), None)))"

text \<open>The back-off timer \<open>i\<close> fires: the part is pushed back and the drive step resumed.\<close>

definition timer_fired :: "deps \<Rightarrow> bool \<Rightarrow> nat \<Rightarrow> uploader \<Rightarrow> uploader" where
  "timer_fired D online i u =
    (if i < length (timers u) then
       (case timers u ! i of
          (ms, p, retry) \<Rightarrow>
            uploadNextChunk D online retry
              (u\<lparr>timers := take i (timers u) @ drop (Suc i) (timers u),
                 parts := parts u @ [p]\<rparr>))
     else u)"

text \<open>
  The window's \<^verbatim>\<open>offline\<close> event runs the listeners in the order they were added, and
  the microtask queue is emptied after each of them.
\<close>

definition window_offline :: "deps \<Rightarrow> bool \<Rightarrow> uploader \<Rightarrow> uploader" where
  "window_offline D online u =
     fold (\<lambda>i v. drain D online (abort_connection i v)) (offlineListeners u) u"

text \<open>
  The tasks the environment can start: calls of the public methods, the settling
  of an RPC, the events of a connection (named by the number \<open>register_chunk\<close> gave
  it), a timer. The events \<^verbatim>\<open>error\<close> and \<^verbatim>\<open>loadend\<close> that reach the progress listener of a
  failed connection are tasks of their own, \<open>Chunk_progress\<close>.
\<close>

datatype event =
    Start
  | Preflight_settled "js_error + upload_metadata option"
  | Chunk_done nat nat "string option"
  | Chunk_error nat
  | Chunk_timeout nat
  | Chunk_progress int event_type nat
  | Window_offline
  | Abort
  | Timer_fired nat
  | Delete_settled nat bool
  | Call_settled nat "js_error option" bool
  | Single_load nat
  | Single_error
  | Single_progress bool nat nat

definition step :: "deps \<Rightarrow> bool \<Rightarrow> event \<Rightarrow> uploader \<Rightarrow> uploader" where
  "step D online ev u =
    drain D online
      (case ev of
         Start \<Rightarrow> start u
       | Preflight_settled r \<Rightarrow> fst (preflight_settled D online r u)
       | Chunk_done i status eTag \<Rightarrow> chunk_done i status eTag u
       | Chunk_error i \<Rightarrow> fail_connection Upload_chunk_error True i u
       | Chunk_timeout i \<Rightarrow> fail_connection Upload_chunk_timeout True i u
       | Chunk_progress k ty loaded \<Rightarrow> handleChunkProgress k ty loaded u
       | Window_offline \<Rightarrow> window_offline D online u
       | Abort \<Rightarrow> abort u
       | Timer_fired i \<Rightarrow> timer_fired D online i u
       | Delete_settled i ok \<Rightarrow> delete_settled i ok u
       | Call_settled i failure isConnected \<Rightarrow> call_settled D i failure isConnected u
       | Single_load status \<Rightarrow> single_onload D status u
       | Single_error \<Rightarrow> single_onerror u
       | Single_progress lengthComputable loaded tot \<Rightarrow>
           handleSinglePartProgress lengthComputable loaded tot u)"

text \<open>A session: the tasks in the order they run, each with \<^verbatim>\<open>navigator.onLine\<close>.\<close>

definition run :: "deps \<Rightarrow> (bool \<times> event) list \<Rightarrow> uploader \<Rightarrow> uploader" where
  "run D evs u = fold (\<lambda>(online, ev). step D online ev) evs u"

subsection \<open>Notions of the specification and an example session\<close>

text \<open>
  The strategy of the transfer plan: the plan is Single when \<^verbatim>\<open>numParts\<close> is null,
  which is what the preflight call then sends as \<^verbatim>\<open>parts\<close>.
\<close>

datatype strategy = Single | Multipart

definition strategy_of :: "uploader \<Rightarrow> strategy" where
  "strategy_of u = (if numParts u = Null then Single else Multipart)"

text \<open>
  A file of 15 MiB under a chunk size of 5 MiB, with every callback supplied, and
  the session that starts it and receives three signed URLs.
\<close>

definition example_deps :: deps where
  "example_deps = \<lparr>normalizeString = (\<lambda>s. s), splitFileExtension = (\<lambda>s. (s, [])),
     getChunkSize = (\<lambda>n. 5242880),
     uuidV4 = (\<lambda>n. if n = 0 then ''generated-uuid'' else ''location-uuid''),
     SERVER_LOCATION_ID = ''server-location''\<rparr>"

definition example_options :: uploader_options where
  "example_options = \<lparr>opt_name = Some ''movie'', opt_data = None, opt_xhr = False,
     opt_onProgress = True, opt_onAborted = True, opt_onError = True, opt_onComplete = True\<rparr>"

definition example_blob :: blob where
  "example_blob = \<lparr>blob_name = None, blob_size = 15728640\<rparr>"

definition example_urls :: "part list" where
  "example_urls =
    [\<lparr>part_number = 1, signed_url = ''url-1''\<rparr>,
     \<lparr>part_number = 2, signed_url = ''url-2''\<rparr>,
     \<lparr>part_number = 3, signed_url = ''url-3''\<rparr>]"

definition example_uploader :: uploader where
  "example_uploader = projr (constructor example_deps example_blob example_options)"

definition example_session :: "(bool \<times> event) list \<Rightarrow> uploader" where
  "example_session evs =
     run example_deps
       ((True, Start)
        # (True, Preflight_settled (Inr (Some (Multi_target example_urls ''upload-id''))))
        # evs)
       example_uploader"

text \<open>The percentages handed to \<^verbatim>\<open>onProgress\<close>, in order.\<close>

fun progress_reports :: "effect list \<Rightarrow> js_number list" where
  "progress_reports [] = []"
| "progress_reports (OnProgress p # es) = p # progress_reports es"
| "progress_reports (e # es) = progress_reports es"


text \<open>
  An operation, and an effect, names the destination \<open>cid\<close> wherever it names a
  component: as the id of the FileComponent, as \<^verbatim>\<open>component_id\<close> of the metadata
  request and of the commit, as \<^verbatim>\<open>component_id\<close> and \<^verbatim>\<open>resource_identifier\<close> of the
  ComponentLocation, as the one key of a delete of FileComponent, as the component
  of the published event and as the argument of \<^verbatim>\<open>onComplete\<close>.
\<close>

fun operation_ok :: "string \<Rightarrow> operation \<Rightarrow> bool" where
  "operation_ok cid (Create_FileComponent i n t s r) = (i = cid)"
| "operation_ok cid (Get_upload_metadata n s c p) = (c = cid)"
| "operation_ok cid (Complete_multipart_upload i ps c) = (c = cid)"
| "operation_ok cid (Create_ComponentLocation i c r l) = (c = cid \<and> r = cid)"

fun effect_ok :: "string \<Rightarrow> effect \<Rightarrow> bool" where
  "effect_ok cid (Session_call ops) = list_all (operation_ok cid) ops"
| "effect_ok cid (Session_delete ty keys) = (ty = ''FileComponent'' \<and> keys = [cid])"
| "effect_ok cid (Publish_component_added c l) = (c = cid)"
| "effect_ok cid (OnComplete c) = (c = cid)"
| "effect_ok cid e = True"

text \<open>
  What every task keeps: the destination id and its use in all effects so far, the
  ceiling of 6, a registry without repeated keys (so that its length is the number
  of its keys) of at most 6 entries, now and at every registration before, and
  connection numbers below the next one to be given out.
\<close>

definition session_inv :: "string \<Rightarrow> uploader \<Rightarrow> bool" where
  "session_inv cid u \<longleftrightarrow>
     componentId u = cid \<and> list_all (effect_ok cid) (effects u) \<and>
     maxConcurrentConnections u = 6 \<and> distinct (map fst (activeConnections u)) \<and>
     length (activeConnections u) \<le> 6 \<and> peakConnections u \<le> 6 \<and>
     list_all (\<lambda>(j, c). j < nextXhr u) (connections u)"


text \<open>A file of 40 MiB and a session with eight signed URLs.\<close>

definition large_blob :: blob where
  "large_blob = \<lparr>blob_name = None, blob_size = 41943040\<rparr>"

definition large_urls :: "part list" where
  "large_urls =
     map (\<lambda>n. \<lparr>part_number = n, signed_url = ''url''\<rparr>) [1, 2, 3, 4, 5, 6, 7, 8]"

definition large_uploader :: uploader where
  "large_uploader = projr (constructor example_deps large_blob example_options)"

definition large_session :: "(bool \<times> event) list" where
  "large_session =
     [(True, Start),
      (True, Preflight_settled (Inr (Some (Multi_target large_urls ''upload-id'')))),
      (True, Chunk_error 0),
      (True, Chunk_done 1 200 (Some ''etag-7'')),
      (True, Timer_fired 0)]"

text \<open>An ETag as the storage returns it, in double quotes.\<close>

definition quoted :: "string \<Rightarrow> string" where
  "quoted s = CHR 0x22 # s @ [CHR 0x22]"

text \<open>
  The example session in which the connections of parts 3 and 2 fail every time:
  seven rounds of both failing and both back-off timers ending, an eighth failure of
  part 3, and the two deletes settling (one succeeds, one fails).
\<close>

definition both_fail :: "nat \<Rightarrow> nat \<Rightarrow> (bool \<times> event) list" where
  "both_fail a b =
     [(True, Chunk_error a), (True, Chunk_error b), (True, Timer_fired 0), (True, Timer_fired 0)]"

definition exhausting_session :: "(bool \<times> event) list" where
  "exhausting_session =
     both_fail 0 1 @ both_fail 3 4 @ both_fail 5 6 @ both_fail 7 8 @ both_fail 9 10 @
     both_fail 11 12 @ both_fail 13 14 @
     [(True, Chunk_error 15), (True, Delete_settled 0 True), (True, Delete_settled 0 False)]"





text \<open>The delays of the back-off timers started, in order.\<close>

fun waits :: "effect list \<Rightarrow> nat list" where
  "waits [] = []"
| "waits (Wait ms # es) = ms # waits es"
| "waits (e # es) = waits es"

text \<open>
  What a drive step that runs online keeps: the microtask queue, the timers, the
  parts recorded, the delays so far, the connections in flight, and the registry
  entries of the parts that are not in the backlog. It takes parts from the backlog
  and adds none.
\<close>

definition online_frame :: "uploader \<Rightarrow> uploader \<Rightarrow> bool" where
  "online_frame u v \<longleftrightarrow>
     microtasks v = microtasks u \<and> timers v = timers u \<and>
     mset (uploadedParts v) = mset (uploadedParts u) \<and>
     waits (effects v) = waits (effects u) \<and>
     set (parts v) \<subseteq> set (parts u) \<and>
     (\<forall>j c. map_of (connections u) j = Some c \<longrightarrow> map_of (connections v) j = Some c) \<and>
     (\<forall>k i. map_of (activeConnections u) k = Some i \<longrightarrow>
        (\<forall>q \<in> set (parts u). part_number q - 1 \<noteq> k) \<longrightarrow>
        map_of (activeConnections v) k = Some i)"

text \<open>
  The attempt of part \<open>p\<close> with counter \<open>r\<close> is in flight on connection \<open>i\<close>: its promise
  is not settled, the registry entry of the part names the connection, and the part
  is not in the backlog. \<open>fail_and_retry\<close> is the session in which the connection of the
  attempt fails \<open>k\<close> times with a network error, each failure followed by the end of
  its back-off; it returns the connection of the last attempt.
\<close>

definition attempt_in_flight :: "part \<Rightarrow> nat \<Rightarrow> nat \<Rightarrow> uploader \<Rightarrow> bool" where
  "attempt_in_flight p r i u \<longleftrightarrow>
     map_of (connections u) i = Some \<lparr>conn_part = p, conn_retry = r, conn_settled = False\<rparr> \<and>
     map_of (activeConnections u) (part_number p - 1) = Some i \<and>
     list_all (\<lambda>q. part_number q \<noteq> part_number p) (parts u)"

fun fail_and_retry :: "deps \<Rightarrow> nat \<Rightarrow> nat \<Rightarrow> uploader \<Rightarrow> uploader \<times> nat" where
  "fail_and_retry D 0 i u = (u, i)"
| "fail_and_retry D (Suc k) i u =
     (let u1 = step D True (Chunk_error i) u;
          u2 = step D True (Timer_fired (length (timers u1) - 1)) u1
      in fail_and_retry D k (nextXhr u1) u2)"


section \<open>Evaluation\<close>

text \<open>The quotients of the model as integer divisions, for computing with numerals.\<close>

lemma math_ceil_div_eval:
  "math_ceil_div a b = (if b = 0 then NonFinite else Count (nat (- (- int a div int b))))"
proof -
  have "\<lceil>(of_nat a :: rat) / of_nat b\<rceil> = \<lceil>(of_int (int a) :: rat) / of_int (int b)\<rceil>" by simp
  also have "\<dots> = - (- int a div int b)" by (simp only: ceiling_divide_eq_div)
  finally show ?thesis by (simp add: math_ceil_div_def)
qed


text \<open>Doubles are computed with numerals.\<close>

lemma bit_length_0: "bit_length 0 = 0"
  by (simp add: bit_length.simps)

lemma bit_length_pos: "0 < n \<Longrightarrow> bit_length n = Suc (bit_length (n div 2))"
  by (simp add: bit_length.simps [of n])

lemma bit_length_numeral: "bit_length (numeral k) = Suc (bit_length (numeral k div 2))"
  by (simp add: bit_length.simps [of "numeral k"])

lemmas double_eval = bit_length_0 bit_length_numeral nearest_even_def exponent_of_def double_of_def
  js_div_def js_mul_def math_round_def math_floor_def Let_def

text \<open>
  The double nearest to a quotient differs from it by at most the quotient times
  \<open>2 ^ - 53\<close>, and so does a product; \<^verbatim>\<open>Math.round\<close> and \<^verbatim>\<open>Math.floor\<close> are those of the value.
\<close>

lemma bit_length_upper: "n < 2 ^ bit_length n"
proof (induction n rule: bit_length.induct)
  case (1 n)
  show ?case
  proof (cases "n = 0")
    case True
    then show ?thesis by (simp add: bit_length_0)
  next
    case False
    with 1 have "n div 2 < 2 ^ bit_length (n div 2)" by simp
    then have "n < 2 * 2 ^ bit_length (n div 2)" by linarith
    with False show ?thesis by (simp add: bit_length_pos)
  qed
qed

lemma bit_length_lower: "0 < n \<Longrightarrow> 2 ^ (bit_length n - 1) \<le> n"
proof (induction n rule: bit_length.induct)
  case (1 n)
  show ?case
  proof (cases "n div 2 = 0")
    case True
    with "1.prems" have "bit_length n = 1"
      by (simp add: bit_length_pos bit_length_0)
    with "1.prems" show ?thesis by simp
  next
    case False
    with 1 have "2 ^ (bit_length (n div 2) - 1) \<le> n div 2" by simp
    moreover from False have "0 < bit_length (n div 2)"
      by (simp add: bit_length_pos)
    ultimately have "2 ^ bit_length (n div 2) \<le> 2 * (n div 2)"
      by (cases "bit_length (n div 2)") simp_all
    also have "\<dots> \<le> n" by simp
    finally show ?thesis using "1.prems" by (simp add: bit_length_pos)
  qed
qed

lemma exponent_lower:
  assumes n: "0 < n" and d: "0 < d"
  shows "(2 :: rat) powi exponent_of n d \<le> of_nat n / of_nat d"
proof -
  define k where "k = int (bit_length n) - int (bit_length d)"
  have dpos: "(0 :: rat) < of_nat d" using d by simp
  show ?thesis
  proof (cases "d * 2 ^ nat k \<le> n * 2 ^ nat (- k)")
    case True
    then have e: "exponent_of n d = k" by (simp add: exponent_of_def k_def Let_def)
    from True have "(of_nat (d * 2 ^ nat k) :: rat) \<le> of_nat (n * 2 ^ nat (- k))"
      by (simp only: of_nat_le_iff)
    then have le: "(of_nat d :: rat) * 2 ^ nat k \<le> of_nat n * 2 ^ nat (- k)"
      by simp
    show ?thesis
    proof (cases "0 \<le> k")
      case True
      then have "(2 :: rat) powi k = 2 ^ nat k" by (simp add: power_int_def)
      moreover from True le have "(of_nat d :: rat) * 2 ^ nat k \<le> of_nat n" by simp
      ultimately show ?thesis using dpos by (simp add: e field_simps)
    next
      case False
      then have pw: "(2 :: rat) powi k = 1 / 2 ^ nat (- k)" by (simp add: power_int_def field_simps)
      from False le have "(of_nat d :: rat) \<le> of_nat n * 2 ^ nat (- k)" by simp
      then have "1 / 2 ^ nat (- k) \<le> (of_nat n :: rat) / of_nat d"
        using dpos by (simp add: field_simps)
      then show ?thesis by (simp only: e pw)
    qed
  next
    case False
    then have e: "exponent_of n d = k - 1" by (simp add: exponent_of_def k_def Let_def)
    from n have bn: "0 < bit_length n" by (simp add: bit_length_pos)
    have "(of_nat (2 ^ (bit_length n - 1)) :: rat) \<le> of_nat n"
      using bit_length_lower [OF n] by (simp only: of_nat_le_iff)
    then have lo: "(2 :: rat) ^ (bit_length n - 1) \<le> of_nat n" by simp
    have "(of_nat d :: rat) < of_nat (2 ^ bit_length d)"
      using bit_length_upper [of d] by (simp only: of_nat_less_iff)
    then have hi: "(of_nat d :: rat) < 2 ^ bit_length d" by simp
    have "k - 1 = int (bit_length n - 1) - int (bit_length d)"
      using bn by (simp add: k_def)
    then have "(2 :: rat) powi (k - 1) = 2 ^ (bit_length n - 1) / 2 ^ bit_length d"
      by (simp add: power_int_diff)
    also have "\<dots> \<le> of_nat n / 2 ^ bit_length d"
      using lo by (simp add: divide_right_mono)
    also have "\<dots> \<le> of_nat n / of_nat d"
      using hi dpos by (simp add: frac_le)
    finally show ?thesis by (simp add: e)
  qed
qed

lemma nearest_even_error:
  assumes d: "0 < d"
  shows "\<bar>of_nat (nearest_even n d) - (of_nat n :: rat) / of_nat d\<bar> \<le> 1 / 2"
proof -
  define q where "q = n div d"
  define r where "r = n mod d"
  have dpos: "(0 :: rat) < of_nat d" using d by simp
  have "n = q * d + r" by (simp add: q_def r_def)
  then have "(of_nat n :: rat) = of_nat (q * d + r)" by (simp only:)
  then have "(of_nat n :: rat) = of_nat q * of_nat d + of_nat r" by simp
  then have frac: "(of_nat n :: rat) / of_nat d = of_nat q + of_nat r / of_nat d"
    using dpos by (simp add: field_simps)
  have r0: "(0 :: rat) \<le> of_nat r / of_nat d" by simp
  consider "2 * r < d" | "d < 2 * r" | "2 * r = d" by linarith
  then show ?thesis
  proof cases
    case 1
    then have "nearest_even n d = q" by (simp add: nearest_even_def q_def r_def Let_def)
    moreover from 1 have "(of_nat (2 * r) :: rat) < of_nat d"
      by (simp only: of_nat_less_iff)
    then have "(2 :: rat) * of_nat r < of_nat d" by simp
    then have "(of_nat r :: rat) / of_nat d \<le> 1 / 2" using dpos by (simp add: field_simps)
    ultimately show ?thesis using r0 by (simp add: frac)
  next
    case 2
    then have "nearest_even n d = Suc q" by (simp add: nearest_even_def q_def r_def Let_def)
    moreover from 2 have "(of_nat d :: rat) < of_nat (2 * r)"
      by (simp only: of_nat_less_iff)
    then have "(of_nat d :: rat) < 2 * of_nat r" by simp
    then have "1 / 2 \<le> (of_nat r :: rat) / of_nat d" using dpos by (simp add: field_simps)
    moreover have "r < d" using d by (simp add: r_def)
    then have "(of_nat r :: rat) / of_nat d \<le> 1" using dpos by (simp add: field_simps)
    ultimately show ?thesis by (simp add: frac abs_le_iff)
  next
    case 3
    then have "(of_nat (2 * r) :: rat) = of_nat d" by (simp only:)
    then have "(2 :: rat) * of_nat r = of_nat d" by simp
    then have h: "(of_nat r :: rat) / of_nat d = 1 / 2" using dpos by (simp add: field_simps)
    from 3 have "nearest_even n d = q \<or> nearest_even n d = Suc q"
      by (simp add: nearest_even_def q_def r_def Let_def)
    then show ?thesis by (auto simp: frac h)
  qed
qed

lemma double_of_error:
  assumes n: "0 < n" and d: "0 < d"
  shows "\<bar>value_of (double_of n d) - of_nat n / of_nat d\<bar> \<le> (of_nat n / of_nat d) / 2 ^ 53"
proof -
  define x :: rat where "x = of_nat n / of_nat d"
  define e where "e = exponent_of n d"
  define k where "k = 52 - e"
  define m where "m = (if 0 \<le> k then nearest_even (n * 2 ^ nat k) d
      else nearest_even n (d * 2 ^ nat (- k)))"
  have dd: "double_of n d = (m, - k)"
    using n by (simp add: double_of_def Let_def m_def k_def e_def)
  have near: "\<bar>of_nat m - x * 2 powi k\<bar> \<le> 1 / 2"
  proof (cases "0 \<le> k")
    case True
    then have p: "(2 :: rat) powi k = 2 ^ nat k" by (simp add: power_int_def)
    have "x * 2 ^ nat k = of_nat (n * 2 ^ nat k) / of_nat d" by (simp add: x_def)
    with nearest_even_error [OF d, of "n * 2 ^ nat k"] True show ?thesis
      by (simp only: m_def p if_True)
  next
    case False
    then have p: "(2 :: rat) powi k = 1 / 2 ^ nat (- k)" by (simp add: power_int_def field_simps)
    have pos: "0 < d * 2 ^ nat (- k)" using d by simp
    have "x * (1 / 2 ^ nat (- k)) = of_nat n / of_nat (d * 2 ^ nat (- k))" by (simp add: x_def)
    with nearest_even_error [OF pos, of n] False show ?thesis
      by (simp only: m_def p if_False)
  qed
  have two: "(2 :: rat) powi k * 2 powi (- k) = 1"
    by (simp add: power_int_minus)
  have pk: "(0 :: rat) < 2 powi (- k)" by simp
  have "value_of (double_of n d) - x = (of_nat m - x * 2 powi k) * 2 powi (- k)"
    using two by (simp add: dd value_of_def algebra_simps)
  then have "\<bar>value_of (double_of n d) - x\<bar> = \<bar>of_nat m - x * 2 powi k\<bar> * 2 powi (- k)"
    using pk by (simp add: abs_mult)
  also have "\<dots> \<le> (1 / 2) * 2 powi (- k)"
    using near pk by (simp add: mult_right_mono)
  also have "(1 / 2) * 2 powi (- k) = (2 :: rat) powi e / 2 ^ 53"
  proof -
    have "- k = e - 52" by (simp add: k_def)
    then have "(2 :: rat) powi (- k) = 2 powi e / 2 ^ 52"
      by (simp add: power_int_diff)
    then show ?thesis by simp
  qed
  also have "\<dots> \<le> x / 2 ^ 53"
    using exponent_lower [OF n d] by (simp add: e_def x_def divide_right_mono)
  finally show ?thesis by (simp add: x_def)
qed

lemma value_of_nonneg: "0 \<le> value_of x"
  by (simp add: value_of_def)

lemma double_of_zero: "value_of (double_of 0 d) = 0"
  by (simp add: double_of_def value_of_def)

lemma js_div_error:
  assumes "0 < b"
  shows "\<bar>value_of (js_div a b) - of_nat a / of_nat b\<bar> \<le> (of_nat a / of_nat b) / 2 ^ 53"
proof (cases "a = 0")
  case True
  then show ?thesis by (simp add: js_div_def double_of_zero)
next
  case False
  with double_of_error [of a b] assms show ?thesis by (simp add: js_div_def)
qed

lemma js_mul_error:
  "\<bar>value_of (js_mul x c) - value_of x * of_nat c\<bar> \<le> (value_of x * of_nat c) / 2 ^ 53"
proof (cases "0 \<le> snd x")
  case True
  then have p: "(2 :: rat) powi snd x = 2 ^ nat (snd x)" by (simp add: power_int_def)
  have v: "value_of x * of_nat c = of_nat (fst x * 2 ^ nat (snd x) * c) / of_nat 1"
    by (simp add: value_of_def p)
  show ?thesis
  proof (cases "fst x * 2 ^ nat (snd x) * c = 0")
    case z: True
    have a: "js_mul x c = double_of 0 1" by (simp only: js_mul_def True if_True z)
    have b: "value_of x * of_nat c = 0" unfolding v z by simp
    show ?thesis unfolding a b double_of_zero by simp
  next
    case False
    with double_of_error [of "fst x * 2 ^ nat (snd x) * c" 1] True show ?thesis
      unfolding v by (simp add: js_mul_def)
  qed
next
  case False
  then have p: "(2 :: rat) powi snd x = 1 / 2 ^ nat (- snd x)"
    by (simp add: power_int_def field_simps)
  have v: "value_of x * of_nat c = of_nat (fst x * c) / of_nat (2 ^ nat (- snd x))"
    by (simp add: value_of_def p)
  show ?thesis
  proof (cases "fst x * c = 0")
    case z: True
    have a: "js_mul x c = double_of 0 (2 ^ nat (- snd x))"
      by (simp only: js_mul_def False if_False z)
    have b: "value_of x * of_nat c = 0" unfolding v z by simp
    show ?thesis unfolding a b double_of_zero by simp
  next
    case nz: False
    with double_of_error [of "fst x * c" "2 ^ nat (- snd x)"] False show ?thesis
      unfolding v by (simp add: js_mul_def)
  qed
qed

lemma math_round_value: "math_round x = \<lfloor>value_of x + 1 / 2\<rfloor>"
proof (cases "0 \<le> snd x")
  case True
  then have "(2 :: rat) powi snd x = 2 ^ nat (snd x)" by (simp add: power_int_def)
  then have "value_of x + 1 / 2 = of_int (int (fst x * 2 ^ nat (snd x))) + 1 / 2"
    by (simp add: value_of_def)
  then have "\<lfloor>value_of x + 1 / 2\<rfloor> = int (fst x * 2 ^ nat (snd x))"
    by (intro floor_unique) simp_all
  then show ?thesis using True by (simp add: math_round_def)
next
  case False
  define j where "j = nat (- snd x)"
  from False have "(2 :: rat) powi snd x = 1 / 2 ^ j" by (simp add: power_int_def field_simps j_def)
  then have "value_of x + 1 / 2 = of_int (int (2 * fst x + 2 ^ j)) / of_int (int (2 * 2 ^ j))"
    by (simp add: value_of_def field_simps)
  then have "\<lfloor>value_of x + 1 / 2\<rfloor> = int (2 * fst x + 2 ^ j) div int (2 * 2 ^ j)"
    by (simp only: floor_divide_of_int_eq)
  also have "\<dots> = int ((2 * fst x + 2 ^ j) div (2 * 2 ^ j))" by (simp only: zdiv_int)
  finally show ?thesis using False by (simp add: math_round_def j_def)
qed

lemma math_floor_value: "math_floor x = \<lfloor>value_of x\<rfloor>"
proof (cases "0 \<le> snd x")
  case True
  then have "(2 :: rat) powi snd x = 2 ^ nat (snd x)" by (simp add: power_int_def)
  then have "value_of x = of_int (int (fst x * 2 ^ nat (snd x)))"
    by (simp add: value_of_def)
  then have "\<lfloor>value_of x\<rfloor> = int (fst x * 2 ^ nat (snd x))"
    by (simp only: floor_of_int)
  then show ?thesis using True by (simp add: math_floor_def)
next
  case False
  define j where "j = nat (- snd x)"
  from False have "(2 :: rat) powi snd x = 1 / 2 ^ j" by (simp add: power_int_def field_simps j_def)
  then have "value_of x = of_int (int (fst x)) / of_int (int (2 ^ j))"
    by (simp add: value_of_def field_simps)
  then have "\<lfloor>value_of x\<rfloor> = int (fst x) div int (2 ^ j)"
    by (simp only: floor_divide_of_int_eq)
  also have "\<dots> = int (fst x div 2 ^ j)" by (simp only: zdiv_int)
  finally show ?thesis using False by (simp add: math_floor_def j_def)
qed

text \<open>
  The percentage of \<open>s\<close> out of \<open>t\<close> as the code computes it, for \<open>s \<le> t\<close>: the double
  \<^verbatim>\<open>(s / t) * 100\<close> is within a half of the exact value.
\<close>

lemma percent_error:
  assumes t: "0 < t" and st: "s \<le> t"
  shows "\<bar>value_of (js_mul (js_div s t) 100) - 100 * (of_nat s / of_nat t)\<bar> < 1 / 2"
proof -
  define x :: rat where "x = of_nat s / of_nat t"
  define a where "a = value_of (js_div s t)"
  define y where "y = value_of (js_mul (js_div s t) 100)"
  have x0: "0 \<le> x" by (simp add: x_def)
  have "(of_nat s :: rat) \<le> of_nat t" using st by (simp only: of_nat_le_iff)
  then have x1: "x \<le> 1" using t by (simp add: x_def field_simps)
  define eps :: rat where "eps = 1 / 2 ^ 53"
  have eps: "0 \<le> eps" "eps \<le> 1 / 1000" by (simp_all add: eps_def)
  have "\<bar>a - x\<bar> \<le> x / 2 ^ 53"
    unfolding a_def x_def by (rule js_div_error [OF t])
  then have ax: "\<bar>a - x\<bar> \<le> x * eps" by (simp add: eps_def)
  have "x * eps \<le> 1 * eps" using x1 eps(1) by (rule mult_right_mono)
  with ax have ax': "\<bar>a - x\<bar> \<le> eps" by linarith
  then have a2: "a \<le> 2" using x1 eps by linarith
  have a0: "0 \<le> a" unfolding a_def by (rule value_of_nonneg)
  have "\<bar>y - a * of_nat 100\<bar> \<le> (a * of_nat 100) / 2 ^ 53"
    unfolding y_def a_def by (rule js_mul_error)
  then have ya: "\<bar>y - 100 * a\<bar> \<le> (100 * a) * eps" by (simp add: mult.commute eps_def)
  have "(100 * a) * eps \<le> 200 * eps"
    using a2 eps(1) by (intro mult_right_mono) simp_all
  with ya have ya': "\<bar>y - 100 * a\<bar> \<le> 200 * eps" by linarith
  have "\<bar>y - 100 * x\<bar> \<le> 300 * eps"
    using ya' ax' by linarith
  also have "\<dots> < 1 / 2" using eps by linarith
  finally show ?thesis by (simp add: y_def x_def)
qed

lemma percent_bounds:
  assumes t: "0 < t" and st: "s \<le> t"
  defines "p \<equiv> math_round (js_mul (js_div s t) 100)"
  shows "\<lfloor>100 * (of_nat s / of_nat t :: rat)\<rfloor> \<le> p"
    and "p \<le> \<lfloor>100 * (of_nat s / of_nat t :: rat)\<rfloor> + 1"
    and "0 \<le> p" and "p \<le> 100"
    and "s = t \<Longrightarrow> p = 100"
    and "p = 100 \<Longrightarrow> 99 * t \<le> 100 * s"
proof -
  define x :: rat where "x = of_nat s / of_nat t"
  define y where "y = value_of (js_mul (js_div s t) 100)"
  have p: "p = \<lfloor>y + 1 / 2\<rfloor>" by (simp add: p_def y_def math_round_value)
  have e: "\<bar>y - 100 * x\<bar> < 1 / 2"
    unfolding y_def x_def by (rule percent_error [OF t st])
  have "(of_nat s :: rat) \<le> of_nat t" using st by (simp only: of_nat_le_iff)
  then have x1: "x \<le> 1" using t by (simp add: x_def field_simps)
  have y0: "0 \<le> y" unfolding y_def by (rule value_of_nonneg)
  from e have "100 * x \<le> y + 1 / 2" by linarith
  then show lo: "\<lfloor>100 * (of_nat s / of_nat t :: rat)\<rfloor> \<le> p"
    unfolding p x_def by (rule floor_mono)
  from e have "y + 1 / 2 \<le> 100 * x + 1" by linarith
  then have "\<lfloor>y + 1 / 2\<rfloor> \<le> \<lfloor>100 * x + 1\<rfloor>" by (rule floor_mono)
  then show hi: "p \<le> \<lfloor>100 * (of_nat s / of_nat t :: rat)\<rfloor> + 1"
    by (simp add: p x_def)
  from y0 have "(0 :: rat) \<le> y + 1 / 2" by simp
  then have "\<lfloor>0 :: rat\<rfloor> \<le> \<lfloor>y + 1 / 2\<rfloor>" by (rule floor_mono)
  then show "0 \<le> p" by (simp add: p)
  from e x1 have "y + 1 / 2 < 101" by linarith
  then have "y + 1 / 2 < of_int 101" by simp
  then have "\<lfloor>y + 1 / 2\<rfloor> < 101" by (simp only: floor_less_iff)
  then show "p \<le> 100" by (simp add: p)
  show "p = 100" if "s = t"
  proof -
    from that t have "x = 1" by (simp add: x_def)
    with e have "100 \<le> y + 1 / 2" "y + 1 / 2 < 100 + 1"
      by linarith+
    then have "of_int 100 \<le> y + 1 / 2" "y + 1 / 2 < of_int 100 + 1"
      by simp_all
    then have "\<lfloor>y + 1 / 2\<rfloor> = 100" by (rule floor_unique)
    then show ?thesis by (simp add: p)
  qed
  show "99 * t \<le> 100 * s" if "p = 100"
  proof -
    from that hi have "99 \<le> \<lfloor>100 * x\<rfloor>" by (simp add: x_def)
    then have "of_int 99 \<le> 100 * x" by (simp only: le_floor_iff)
    then have "(99 :: rat) * of_nat t \<le> 100 * of_nat s"
      using t by (simp add: x_def field_simps)
    then have "(of_nat (99 * t) :: rat) \<le> of_nat (100 * s)" by simp
    then show ?thesis by (simp only: of_nat_le_iff)
  qed
qed

lemma spec_percentage_div:
  "spec_percentage c i d = (100 * int (min (c + i) d)) div int d"
proof -
  have "(of_nat (min (c + i) d) :: rat) / of_nat d * 100 = of_int (100 * int (min (c + i) d)) / of_int (int d)"
    by simp
  then show ?thesis
    unfolding spec_percentage_def by (simp only: floor_divide_of_int_eq)
qed

lemma spec_percentage_nat:
  "spec_percentage c i d = int ((100 * min (c + i) d) div d)"
  by (simp add: spec_percentage_div zdiv_int)

text \<open>The drive step and the microtask queue, one equation per branch.\<close>

lemma uploadNextChunk_full:
  "maxConcurrentConnections u \<le> length (activeConnections u) \<Longrightarrow>
   uploadNextChunk D online retry u = u"
  by (simp add: uploadNextChunk.simps)

lemma uploadNextChunk_empty:
  "\<not> maxConcurrentConnections u \<le> length (activeConnections u) \<Longrightarrow> parts u = [] \<Longrightarrow>
   uploadNextChunk D online retry u =
     (if activeConnections u = [] then completeUpload D From_uploadNextChunk u else u)"
  by (simp add: uploadNextChunk.simps [of D online retry u])

lemma uploadNextChunk_dispatch:
  "\<not> maxConcurrentConnections u \<le> length (activeConnections u) \<Longrightarrow> parts u \<noteq> [] \<Longrightarrow>
   uploadNextChunk D online retry u =
     send_chunk online (last (parts u)) retry (nextXhr u)
       ((part_number (last (parts u)) - 1) * int (chunkSize u))
       ((part_number (last (parts u)) - 1) * int (chunkSize u) + int (chunkSize u))
       (uploadNextChunk D online 0
          (register_chunk online (last (parts u)) retry (u\<lparr>parts := butlast (parts u)\<rparr>)))"
  by (simp add: uploadNextChunk.simps [of D online retry u] Let_def)

lemma drain_empty:
  "microtasks u = [] \<Longrightarrow> drain D online u = u"
  by (simp add: drain.simps)

lemma drain_next:
  "microtasks u \<noteq> [] \<Longrightarrow>
   drain D online u =
     drain D online (run_microtask D online (hd (microtasks u)) (u\<lparr>microtasks := tl (microtasks u)\<rparr>))"
  by (cases "microtasks u") (simp_all add: drain.simps [of D online u])

lemmas example_defs = example_deps_def example_options_def example_blob_def example_urls_def
  example_uploader_def example_session_def large_blob_def large_urls_def large_uploader_def
  large_session_def quoted_def both_fail_def exhausting_session_def

lemmas eval_defs = constructor_def truthy_def or_else_def or_else_num_def math_ceil_div_eval
  empty_data_def Let_def run_def step_def start_def preflight_settled_def emit_def
  uploadNextChunk_full uploadNextChunk_empty uploadNextChunk_dispatch drain_empty drain_next
  register_chunk_def send_chunk_def completeUpload_def chunk_done_def
  fail_connection_def abort_connection_def is_array_index_def object_entries_def abort_def
  run_microtask_def cleanup_def timer_fired_def
  delete_settled_def call_settled_def unquote_def window_offline_def single_onabort_def
  handleChunkProgress_def percentage_of_def double_eval sent_bytes_def inProgress_def
  cache_get_def spec_percentage_div


lemma constructor_fields:
  assumes "constructor D file options = Inr u"
  shows "fileSize u =
      or_else_num (data_size (case opt_data options of None \<Rightarrow> empty_data | Some d \<Rightarrow> d))
        (blob_size file)"
    and "chunkSize u = getChunkSize D (fileSize u)"
    and "numParts u =
      (if opt_xhr options then Null
       else if le_two (math_ceil_div (fileSize u) (chunkSize u)) then Null
       else math_ceil_div (fileSize u) (chunkSize u))"
    and "effects u = (if opt_xhr options then [Warn_xhr_deprecated] else [])"
    and "componentId u =
      or_else (data_id (case opt_data options of None \<Rightarrow> empty_data | Some d \<Rightarrow> d)) (uuidV4 D 0)"
    and "maxConcurrentConnections u = 6"
    and "activeConnections u = []"
    and "peakConnections u = 0"
    and "connections u = []"
    and "microtasks u = []"
    and "offlineListeners u = []"
proof -
  let ?n = "if truthy (case opt_name options of Some n \<Rightarrow> Some n | None \<Rightarrow> blob_name file)
    then Some (normalizeString D
      (the (case opt_name options of Some n \<Rightarrow> Some n | None \<Rightarrow> blob_name file))) else None"
  have T: "truthy ?n"
  proof (rule ccontr)
    assume "\<not> truthy ?n"
    then have "constructor D file options = Inl Component_name_missing"
      by (simp add: constructor_def Let_def)
    with assms show False by simp
  qed
  have u: "u = projr (constructor D file options)"
    by (simp add: assms)
  show "fileSize u =
      or_else_num (data_size (case opt_data options of None \<Rightarrow> empty_data | Some d \<Rightarrow> d))
        (blob_size file)"
    unfolding u using T by (simp add: constructor_def Let_def)
  show "chunkSize u = getChunkSize D (fileSize u)"
    unfolding u using T by (simp add: constructor_def Let_def)
  show "numParts u =
      (if opt_xhr options then Null
       else if le_two (math_ceil_div (fileSize u) (chunkSize u)) then Null
       else math_ceil_div (fileSize u) (chunkSize u))"
    unfolding u using T by (simp add: constructor_def Let_def)
  show "effects u = (if opt_xhr options then [Warn_xhr_deprecated] else [])"
    unfolding u using T by (simp add: constructor_def Let_def)
  show "componentId u =
      or_else (data_id (case opt_data options of None \<Rightarrow> empty_data | Some d \<Rightarrow> d)) (uuidV4 D 0)"
    unfolding u using T by (simp add: constructor_def Let_def)
  show "maxConcurrentConnections u = 6"
    unfolding u using T by (simp add: constructor_def Let_def)
  show "activeConnections u = []"
    unfolding u using T by (simp add: constructor_def Let_def)
  show "peakConnections u = 0"
    unfolding u using T by (simp add: constructor_def Let_def)
  show "connections u = []"
    unfolding u using T by (simp add: constructor_def Let_def)
  show "microtasks u = []"
    unfolding u using T by (simp add: constructor_def Let_def)
  show "offlineListeners u = []"
    unfolding u using T by (simp add: constructor_def Let_def)
qed


section \<open>What every task keeps\<close>

lemma handleChunkProgress_inv:
  "session_inv cid u \<Longrightarrow> session_inv cid (handleChunkProgress k ty l u)"
  by (simp add: session_inv_def handleChunkProgress_def emit_def Let_def)

lemma handleSinglePartProgress_inv:
  "session_inv cid u \<Longrightarrow> session_inv cid (handleSinglePartProgress c l t u)"
  by (simp add: session_inv_def handleSinglePartProgress_def emit_def Let_def)

lemma completeUpload_inv:
  "session_inv cid u \<Longrightarrow> session_inv cid (completeUpload D caller u)"
  by (simp add: session_inv_def completeUpload_def emit_def Let_def)

lemma call_settled_inv:
  "session_inv cid u \<Longrightarrow> session_inv cid (call_settled D i failure c u)"
  by (simp add: session_inv_def call_settled_def emit_def Let_def
      split: option.split call_continuation.split)

lemma cleanup_inv:
  "session_inv cid u \<Longrightarrow> session_inv cid (cleanup k u)"
  by (simp add: session_inv_def cleanup_def emit_def)

lemma reject_single_inv:
  "session_inv cid u \<Longrightarrow> session_inv cid (reject_single e u)"
  by (simp add: session_inv_def reject_single_def emit_def Let_def)

lemma delete_settled_inv:
  assumes "session_inv cid u"
  shows "session_inv cid (delete_settled i ok u)"
proof (cases "i < length (pendingDeletes u)")
  case False
  with assms show ?thesis by (simp add: delete_settled_def)
next
  case True
  define u1 where "u1 = u\<lparr>pendingDeletes := take i (pendingDeletes u) @ drop (Suc i) (pendingDeletes u)\<rparr>"
  have u1: "session_inv cid u1" using assms by (simp add: session_inv_def u1_def)
  have e: "session_inv cid (if onError u1 then emit [OnError e] u1 else u1)" for e
    using u1 by (simp add: session_inv_def emit_def)
  show ?thesis
    using True u1 e reject_single_inv [OF u1]
    by (cases "pendingDeletes u ! i")
       (simp_all add: delete_settled_def Let_def u1_def [symmetric])
qed

lemma uploadFile_inv:
  "session_inv cid u \<Longrightarrow> session_inv cid (uploadFile url headers u)"
  by (auto simp: session_inv_def uploadFile_def emit_def list_all_iff split_beta)

lemma single_onload_inv:
  assumes "session_inv cid u"
  shows "session_inv cid (single_onload D status u)"
proof -
  have a: "session_inv cid (u\<lparr>singleInFlight := False\<rparr>)"
    using assms by (simp add: session_inv_def)
  have b: "session_inv cid (v\<lparr>singleSettled := True\<rparr>)" if "session_inv cid v" for v
    using that by (simp add: session_inv_def)
  show ?thesis
    using assms a reject_single_inv [OF a] b completeUpload_inv
    by (simp add: single_onload_def Let_def)
qed

lemma single_onerror_inv:
  "session_inv cid u \<Longrightarrow> session_inv cid (single_onerror u)"
  by (simp add: session_inv_def single_onerror_def cleanup_def emit_def)

lemma single_onabort_inv:
  "session_inv cid u \<Longrightarrow> session_inv cid (single_onabort u)"
  by (simp add: session_inv_def single_onabort_def cleanup_def emit_def Let_def)

lemma length_delete_bound:
  "length xs \<le> n \<Longrightarrow> length (AList.delete k xs) \<le> n"
  using length_delete_le [of k xs] by simp

lemma list_all_delete:
  "list_all P xs \<Longrightarrow> list_all P (AList.delete k xs)"
  by (induction xs) auto

lemma fail_connection_inv:
  "session_inv cid u \<Longrightarrow> session_inv cid (fail_connection e b i u)"
  by (cases "map_of (connections u) i")
     (simp_all add: session_inv_def fail_connection_def Let_def distinct_delete length_delete_bound
        list_all_delete)

lemma abort_connection_inv:
  assumes "session_inv cid u"
  shows "session_inv cid (abort_connection i u)"
proof -
  have "session_inv cid (emit [Xhr_abort i] u)"
    using assms by (simp add: session_inv_def emit_def)
  then show ?thesis
    by (simp add: abort_connection_def Let_def fail_connection_inv handleChunkProgress_inv
        split: option.split)
qed

lemma fold_abort_connection_inv:
  "session_inv cid u \<Longrightarrow> session_inv cid (fold abort_connection is u)"
  by (induction "is" arbitrary: u) (simp_all add: abort_connection_inv)

lemma abort_inv:
  "session_inv cid u \<Longrightarrow> session_inv cid (abort u)"
  by (simp add: abort_def Let_def fold_abort_connection_inv single_onabort_inv)

lemma chunk_done_inv:
  "session_inv cid u \<Longrightarrow> session_inv cid (chunk_done i status eTag u)"
  by (cases "map_of (connections u) i")
     (simp_all add: session_inv_def chunk_done_def Let_def distinct_delete length_delete_bound
        list_all_delete)

lemma length_update_bound:
  "length (AList.update k v xs) \<le> Suc (length xs)"
  by (induction xs) auto

lemma register_chunk_inv:
  assumes "session_inv cid u" and "length (activeConnections u) < 6"
  shows "session_inv cid (register_chunk online p retry u)"
proof -
  have "length (AList.update (part_number p - 1) (nextXhr u) (activeConnections u)) \<le> 6"
    using assms(2) length_update_bound [of "part_number p - 1" "nextXhr u" "activeConnections u"]
    by simp
  moreover have "list_all (\<lambda>(j, c). j < Suc (nextXhr u)) (connections u)"
    using assms(1) by (auto simp: session_inv_def list_all_iff)
  ultimately show ?thesis
    using assms(1) by (simp add: session_inv_def register_chunk_def Let_def distinct_update)
qed

lemma send_chunk_inv:
  "session_inv cid u \<Longrightarrow> session_inv cid (send_chunk online p retry i lo hi u)"
  by (cases online) (simp_all add: session_inv_def send_chunk_def emit_def Let_def)

lemma uploadNextChunk_inv:
  "session_inv cid u \<Longrightarrow> session_inv cid (uploadNextChunk D online retry u)"
proof (induction D online retry u rule: uploadNextChunk.induct)
  case (1 D online retry u)
  show ?case
  proof (cases "maxConcurrentConnections u \<le> length (activeConnections u)")
    case True
    with "1.prems" show ?thesis by (simp add: uploadNextChunk.simps)
  next
    case open_slot: False
    show ?thesis
    proof (cases "parts u = []")
      case True
      with open_slot "1.prems" show ?thesis
        by (simp add: uploadNextChunk.simps [of D online retry u] completeUpload_inv)
    next
      case False
      define v where "v = register_chunk online (last (parts u)) retry (u\<lparr>parts := butlast (parts u)\<rparr>)"
      have "session_inv cid (u\<lparr>parts := butlast (parts u)\<rparr>)"
        using "1.prems" by (simp add: session_inv_def)
      moreover have "length (activeConnections (u\<lparr>parts := butlast (parts u)\<rparr>)) < 6"
        using open_slot "1.prems" by (simp add: session_inv_def)
      ultimately have "session_inv cid v"
        unfolding v_def by (rule register_chunk_inv)
      then have "session_inv cid (uploadNextChunk D online 0 v)"
        unfolding v_def using "1.IH" [OF _ False refl refl refl] open_slot by simp
      then have "session_inv cid (send_chunk online q r a c d (uploadNextChunk D online 0 v))"
        for q r a c d by (rule send_chunk_inv)
      then show ?thesis
        using open_slot False by (simp add: uploadNextChunk.simps [of D online retry u] v_def Let_def)
    qed
  qed
qed

lemma run_microtask_inv:
  assumes "session_inv cid u"
  shows "session_inv cid (run_microtask D online m u)"
proof (cases m)
  case Then_uploadNextChunk
  with assms show ?thesis by (simp add: run_microtask_def uploadNextChunk_inv)
next
  case (Catch_failure p retry e)
  have a: "session_inv cid (emit [Warn_backing_off x y, Wait z] (u\<lparr>timers := ts\<rparr>))" for x y z ts
    using assms by (simp add: session_inv_def emit_def)
  have "session_inv cid (emit [Error_giving_up (part_number p)] u)"
    using assms by (simp add: session_inv_def emit_def)
  then have b: "session_inv cid (cleanup (HandleError e) (abort (emit [Error_giving_up (part_number p)] u)))"
    by (intro cleanup_inv abort_inv)
  from a b Catch_failure show ?thesis by (simp add: run_microtask_def Let_def)
qed

lemma drain_inv:
  "session_inv cid u \<Longrightarrow> session_inv cid (drain D online u)"
proof (induction D online u rule: drain.induct)
  case (1 D online u)
  show ?case
  proof (cases "microtasks u")
    case Nil
    with "1.prems" show ?thesis by (simp add: drain.simps)
  next
    case (Cons m ms)
    have "session_inv cid (u\<lparr>microtasks := ms\<rparr>)"
      using "1.prems" by (simp add: session_inv_def)
    then have "session_inv cid (run_microtask D online m (u\<lparr>microtasks := ms\<rparr>))"
      by (rule run_microtask_inv)
    then have "session_inv cid (drain D online (run_microtask D online m (u\<lparr>microtasks := ms\<rparr>)))"
      by (rule "1.IH" [OF Cons])
    with Cons show ?thesis by (simp add: drain.simps [of D online u])
  qed
qed

lemma window_offline_inv:
  "session_inv cid u \<Longrightarrow> session_inv cid (window_offline D online u)"
proof -
  have "session_inv cid (fold (\<lambda>i v. drain D online (abort_connection i v)) is u)"
    if "session_inv cid u" for "is" u
    using that by (induction "is" arbitrary: u) (simp_all add: abort_connection_inv drain_inv)
  then show "session_inv cid u \<Longrightarrow> session_inv cid (window_offline D online u)"
    by (simp add: window_offline_def)
qed

lemma start_inv:
  "session_inv cid u \<Longrightarrow> session_inv cid (start u)"
  by (simp add: session_inv_def start_def emit_def)

lemma preflight_settled_inv:
  assumes "session_inv cid u"
  shows "session_inv cid (fst (preflight_settled D online r u))"
proof (cases "awaitingPreflight u")
  case False
  with assms show ?thesis by (simp add: preflight_settled_def)
next
  case True
  have a: "session_inv cid (u\<lparr>awaitingPreflight := False\<rparr>)"
    using assms by (simp add: session_inv_def)
  have b: "session_inv cid (u\<lparr>awaitingPreflight := False, uploadMetadata := m, parts := ps, uploadId := i\<rparr>)" for m ps i
    using assms by (simp add: session_inv_def)
  have c: "session_inv cid (u\<lparr>awaitingPreflight := False, uploadMetadata := m\<rparr>)" for m
    using assms by (simp add: session_inv_def)
  show ?thesis
    using True a uploadNextChunk_inv [OF b] uploadFile_inv [OF c]
    by (simp add: preflight_settled_def Let_def split: sum.split option.split upload_metadata.split)
qed

lemma timer_fired_inv:
  assumes "session_inv cid u"
  shows "session_inv cid (timer_fired D online i u)"
proof -
  have "session_inv cid (u\<lparr>timers := ts, parts := ps\<rparr>)" for ts ps
    using assms by (simp add: session_inv_def)
  then show ?thesis
    using assms by (simp add: timer_fired_def uploadNextChunk_inv split: prod.split)
qed

lemma step_inv:
  "session_inv cid u \<Longrightarrow> session_inv cid (step D online ev u)"
  unfolding step_def
  by (rule drain_inv, cases ev)
     (simp_all add: start_inv preflight_settled_inv chunk_done_inv fail_connection_inv
        handleChunkProgress_inv window_offline_inv abort_inv timer_fired_inv delete_settled_inv
        call_settled_inv single_onload_inv single_onerror_inv handleSinglePartProgress_inv)

lemma run_inv:
  "session_inv cid u \<Longrightarrow> session_inv cid (run D evs u)"
  unfolding run_def
  by (induction evs arbitrary: u) (simp_all add: step_inv split_beta)

lemma constructor_inv:
  assumes "constructor D file options = Inr u"
  shows "session_inv (componentId u) u"
  using constructor_fields [OF assms]
  by (simp add: session_inv_def)

section \<open>The strategy selector\<close>

text \<open>
  C8. With \<open>S\<close> the declared size and \<open>C = getChunkSize S\<close> the chunk size (taken
  positive), the constructor computes the part count \<open>\<lceil>S / C\<rceil>\<close>; the plan is Single
  (\<^verbatim>\<open>numParts\<close> null) when that count is at most 2 and Multipart with that count
  otherwise; a supplied \<^verbatim>\<open>options.xhr\<close> makes the plan Single whatever the size, and
  the deprecation warning is logged exactly then.
\<close>

theorem constructor_strategy:
  assumes "constructor D file options = Inr u"
    and "0 < getChunkSize D (fileSize u)"
  shows "chunkSize u = getChunkSize D (fileSize u) \<and>
    strategy_of u =
      (if opt_xhr options \<or> \<lceil>(of_nat (fileSize u) :: rat) / of_nat (chunkSize u)\<rceil> \<le> 2
       then Single else Multipart) \<and>
    numParts u =
      (if opt_xhr options \<or> \<lceil>(of_nat (fileSize u) :: rat) / of_nat (chunkSize u)\<rceil> \<le> 2
       then Null else Count (nat \<lceil>(of_nat (fileSize u) :: rat) / of_nat (chunkSize u)\<rceil>)) \<and>
    effects u = (if opt_xhr options then [Warn_xhr_deprecated] else [])"
proof -
  let ?c = "\<lceil>(of_nat (fileSize u) :: rat) / of_nat (chunkSize u)\<rceil>"
  note f = constructor_fields [OF assms(1)]
  from assms(2) f(2) have pos: "chunkSize u \<noteq> 0" by simp
  have "(0 :: rat) \<le> of_nat (fileSize u) / of_nat (chunkSize u)" by simp
  then have "(- 1 :: rat) < of_nat (fileSize u) / of_nat (chunkSize u)" by linarith
  then have ceil: "0 \<le> ?c" by (simp only: zero_le_ceiling)
  from pos have M: "math_ceil_div (fileSize u) (chunkSize u) = Count (nat ?c)"
    by (simp add: math_ceil_div_def)
  have L: "le_two (Count (nat ?c)) \<longleftrightarrow> ?c \<le> 2"
    using ceil by (simp only: le_two.simps nat_le_iff) simp
  have N: "numParts u = (if opt_xhr options \<or> ?c \<le> 2 then Null else Count (nat ?c))"
    using f(3) unfolding M L by (simp only: if_split) blast
  have S: "strategy_of u = (if opt_xhr options \<or> ?c \<le> 2 then Single else Multipart)"
    unfolding strategy_of_def N by simp
  from f(2) S N f(4) show ?thesis by blast
qed

theorem constructor_strategy_witness:
  "constructor example_deps example_blob example_options = Inr example_uploader \<and>
   0 < getChunkSize example_deps (fileSize example_uploader) \<and>
   strategy_of example_uploader = Multipart \<and> numParts example_uploader = Count 3"
proof -
  have c: "constructor example_deps example_blob example_options = Inr example_uploader"
    by (simp add: example_defs eval_defs)
  have p: "0 < getChunkSize example_deps (fileSize example_uploader)"
    by (simp add: example_defs)
  have n: "numParts example_uploader = Count 3"
    by (simp add: example_defs eval_defs)
  from constructor_strategy [OF c p] have "strategy_of example_uploader = Multipart"
    unfolding n by (simp split: if_splits)
  with c p n show ?thesis by blast
qed


section \<open>The progress aggregator\<close>

lemma handleChunkProgress_counters:
  "fileSize (handleChunkProgress k ty l u) = fileSize u"
  "uploadedSize (handleChunkProgress k ty l u) =
     (if ty = Uploaded_event then uploadedSize u + cache_get (progressCache u) k else uploadedSize u)"
  "progressCache (handleChunkProgress k ty l u) =
     (if ty = Uploaded_event then AList.delete k (progressCache u)
      else if ty = Loadend_event then progressCache u
      else AList.update k l (progressCache u))"
  by (cases ty; simp add: handleChunkProgress_def emit_def Let_def)+

lemma handleChunkProgress_effects:
  "effects (handleChunkProgress k ty l u) =
     (if onProgress u
      then effects u @ [OnProgress (percentage_of (sent_bytes (handleChunkProgress k ty l u)) (fileSize u))]
      else effects u)"
  by (cases ty; simp add: handleChunkProgress_def emit_def Let_def sent_bytes_def inProgress_def)


text \<open>
  C1, as the code has it. With \<^verbatim>\<open>onProgress\<close> supplied and a positive declared size,
  every call of \<^verbatim>\<open>handleChunkProgress\<close> reports one percentage: the double
  \<^verbatim>\<open>(sent / total) * 100\<close>, where \<open>sent\<close> is the smaller of committed plus in-flight bytes
  and the declared size, rounded to the nearest integer (\<^verbatim>\<open>Math.round\<close>). It is the
  floor of the specification or one more, lies between 0 and 100, is 100 whenever
  committed plus in-flight bytes reach the declared size, and only if they reach 99
  percent of it. Nothing keeps a later report from being smaller than an earlier one.
\<close>

theorem progress_report:
  assumes "onProgress u" and "0 < fileSize u"
  shows "let u' = handleChunkProgress k ty l u;
             p = math_round (js_mul (js_div (sent_bytes u') (fileSize u)) 100);
             f = spec_percentage (uploadedSize u') (inProgress u') (fileSize u)
         in effects u' = effects u @ [OnProgress (Number p)] \<and>
            f \<le> p \<and> p \<le> f + 1 \<and> 0 \<le> p \<and> p \<le> 100 \<and>
            (fileSize u \<le> uploadedSize u' + inProgress u' \<longrightarrow> p = 100) \<and>
            (p = 100 \<longrightarrow> 99 * fileSize u \<le> 100 * (uploadedSize u' + inProgress u'))"
proof -
  define u' where "u' = handleChunkProgress k ty l u"
  define s where "s = sent_bytes u'"
  define t where "t = fileSize u"
  define p where "p = math_round (js_mul (js_div s t) 100)"
  define f where "f = spec_percentage (uploadedSize u') (inProgress u') t"
  have t: "0 < t" using assms(2) by (simp add: t_def)
  have st: "s \<le> t"
    by (simp add: s_def t_def sent_bytes_def u'_def handleChunkProgress_counters(1))
  have s: "s = min (uploadedSize u' + inProgress u') t"
    by (simp add: s_def t_def sent_bytes_def u'_def handleChunkProgress_counters(1))
  have f: "f = \<lfloor>100 * (of_nat s / of_nat t :: rat)\<rfloor>"
    unfolding f_def spec_percentage_def s by (simp only: mult.commute)
  note b = percent_bounds [OF t st, folded p_def f]
  have e: "effects u' = effects u @ [OnProgress (Number p)]"
    using assms t by (simp add: u'_def handleChunkProgress_effects percentage_of_def s_def t_def p_def)
  have full: "p = 100" if "t \<le> uploadedSize u' + inProgress u'"
  proof -
    from that have "s = t" by (simp add: s)
    then show ?thesis by (rule b(5))
  qed
  have near: "99 * t \<le> 100 * (uploadedSize u' + inProgress u')" if "p = 100"
  proof -
    from that have "99 * t \<le> 100 * s" by (rule b(6))
    also have "s \<le> uploadedSize u' + inProgress u'" by (simp add: s)
    finally show ?thesis by simp
  qed
  have "effects u' = effects u @ [OnProgress (Number p)] \<and>
      f \<le> p \<and> p \<le> f + 1 \<and> 0 \<le> p \<and> p \<le> 100 \<and>
      (t \<le> uploadedSize u' + inProgress u' \<longrightarrow> p = 100) \<and>
      (p = 100 \<longrightarrow> 99 * t \<le> 100 * (uploadedSize u' + inProgress u'))"
    using e b(1-4) full near by blast
  then show ?thesis
    unfolding Let_def p_def f_def s_def u'_def t_def .
qed

theorem progress_report_witness:
  "onProgress (example_session [(True, Chunk_progress 2 Progress_event 5242880)]) \<and>
   0 < fileSize (example_session [(True, Chunk_progress 2 Progress_event 5242880)]) \<and>
   effects (handleChunkProgress 1 Progress_event 3801088
       (example_session [(True, Chunk_progress 2 Progress_event 5242880)])) =
     effects (example_session [(True, Chunk_progress 2 Progress_event 5242880)])
       @ [OnProgress (Number 57)] \<and>
   spec_percentage 0 9043968 15728640 = 57"
proof -
  have a: "onProgress (example_session [(True, Chunk_progress 2 Progress_event 5242880)])"
    by (simp add: example_defs eval_defs)
  have b: "0 < fileSize (example_session [(True, Chunk_progress 2 Progress_event 5242880)])"
    by (simp add: example_defs eval_defs)
  have c: "effects (handleChunkProgress 1 Progress_event 3801088
       (example_session [(True, Chunk_progress 2 Progress_event 5242880)])) =
     effects (example_session [(True, Chunk_progress 2 Progress_event 5242880)])
       @ [OnProgress (Number 57)]"
    using progress_report [OF a b, of 1 Progress_event 3801088]
    by (simp add: example_defs eval_defs)
  have d: "spec_percentage 0 9043968 15728640 = 57" by (simp add: spec_percentage_div)
  from a b c d show ?thesis by blast
qed


text \<open>
  C1 as stated fails in the example session. With 4 MiB of 15 MiB in flight the report is
  27, not the floor 26; the error event of that connection (\<^verbatim>\<open>loaded\<close> 0) then reports 0,
  below the 27 before it; and once the three connections have sent their 5 MiB each the
  report is 100 while no part has committed.
\<close>

theorem progress_counterexample:
  "progress_reports (effects (example_session
      [(True, Chunk_progress 2 Progress_event 4194304)])) = [Number 27] \<and>
   spec_percentage
     (uploadedSize (example_session [(True, Chunk_progress 2 Progress_event 4194304)]))
     (inProgress (example_session [(True, Chunk_progress 2 Progress_event 4194304)]))
     (fileSize (example_session [(True, Chunk_progress 2 Progress_event 4194304)])) = 26 \<and>
   progress_reports (effects (example_session
      [(True, Chunk_progress 2 Progress_event 4194304),
       (True, Chunk_progress 2 Error_event 0),
       (True, Chunk_error 0)])) = [Number 27, Number 0] \<and>
   progress_reports (effects (example_session
      [(True, Chunk_progress 0 Progress_event 5242880),
       (True, Chunk_progress 1 Progress_event 5242880),
       (True, Chunk_progress 2 Progress_event 5242880)])) = [Number 33, Number 67, Number 100] \<and>
   uploadedParts (example_session
      [(True, Chunk_progress 0 Progress_event 5242880),
       (True, Chunk_progress 1 Progress_event 5242880),
       (True, Chunk_progress 2 Progress_event 5242880)]) = []"
  by (simp add: example_defs eval_defs)


section \<open>The connection pool\<close>

text \<open>
  C4. In every session, whatever tasks run in whatever order, the registry of active
  connections never holds more than 6 entries: not after any task, and not right after
  any registration inside a task (the history variable \<open>peakConnections\<close>), which
  covers the re-entrant calls of the drive step and the re-dispatch of a retry. The
  registry has no repeated key, so its length is the number \<^verbatim>\<open>Object.keys\<close> counts.
\<close>

theorem connection_ceiling:
  assumes "constructor D file options = Inr u"
  shows "length (activeConnections (run D evs u)) \<le> 6 \<and>
         peakConnections (run D evs u) \<le> 6 \<and>
         distinct (map fst (activeConnections (run D evs u))) \<and>
         maxConcurrentConnections (run D evs u) = 6"
  using run_inv [OF constructor_inv [OF assms], of D evs]
  by (simp add: session_inv_def)

theorem connection_ceiling_witness:
  "constructor example_deps large_blob example_options = Inr large_uploader \<and>
   length (activeConnections (run example_deps large_session large_uploader)) = 6 \<and>
   peakConnections (run example_deps large_session large_uploader) = 6 \<and>
   map part_number (parts (run example_deps large_session large_uploader)) = [8]"
proof -
  have c: "constructor example_deps large_blob example_options = Inr large_uploader"
    by (simp add: example_defs eval_defs)
  have e: "length (activeConnections (run example_deps large_session large_uploader)) = 6 \<and>
      peakConnections (run example_deps large_session large_uploader) = 6 \<and>
      map part_number (parts (run example_deps large_session large_uploader)) = [8]"
    by (simp add: example_defs eval_defs)
  from connection_ceiling [OF c, of large_session] c e show ?thesis by simp
qed

section \<open>The destination id\<close>

text \<open>
  C10. The component id is \<^verbatim>\<open>options.data.id\<close> when that is a non-empty string and the
  first generated uuid otherwise; no task changes it; and every effect of the session
  that names a component names this one: the FileComponent and the metadata request of
  the preflight, the commit, both fields of the ComponentLocation, the published event,
  the argument of \<^verbatim>\<open>onComplete\<close> and the key of every cleanup delete.
\<close>

theorem component_id_invariant:
  assumes "constructor D file options = Inr u"
  shows "componentId u =
           or_else (data_id (case opt_data options of None \<Rightarrow> empty_data | Some d \<Rightarrow> d))
             (uuidV4 D 0) \<and>
         componentId (run D evs u) = componentId u \<and>
         list_all (effect_ok (componentId u)) (effects (run D evs u))"
  using run_inv [OF constructor_inv [OF assms], of D evs] constructor_fields(5) [OF assms]
  by (simp add: session_inv_def)

theorem component_id_invariant_witness:
  "constructor example_deps example_blob example_options = Inr example_uploader \<and>
   componentId example_uploader = ''generated-uuid'' \<and>
   list_all (effect_ok ''generated-uuid'')
     (effects (run example_deps
        [(True, Start),
         (True, Preflight_settled (Inr (Some (Single_target ''url'' [(''Content-Length'', ''9'')])))),
         (True, Abort),
         (True, Delete_settled 0 True)]
        example_uploader)) \<and>
   effects (run example_deps
        [(True, Start),
         (True, Preflight_settled (Inr (Some (Single_target ''url'' [(''Content-Length'', ''9'')])))),
         (True, Abort),
         (True, Delete_settled 0 True)]
        example_uploader) =
     [Session_call
        [Create_FileComponent ''generated-uuid'' ''movie'' [] 15728640 [],
         Get_upload_metadata ''movie'' 15728640 ''generated-uuid'' (Count 3)],
      Xhr_open_single ''url'', Xhr_send_file, OnAborted,
      Session_delete ''FileComponent'' [''generated-uuid''], OnError UPLOAD_ABORTED]"
proof -
  have c: "constructor example_deps example_blob example_options = Inr example_uploader"
    by (simp add: example_defs eval_defs)
  have i: "componentId example_uploader = ''generated-uuid''"
    by (simp add: example_defs eval_defs)
  have e: "effects (run example_deps
        [(True, Start),
         (True, Preflight_settled (Inr (Some (Single_target ''url'' [(''Content-Length'', ''9'')])))),
         (True, Abort),
         (True, Delete_settled 0 True)]
        example_uploader) =
     [Session_call
        [Create_FileComponent ''generated-uuid'' ''movie'' [] 15728640 [],
         Get_upload_metadata ''movie'' 15728640 ''generated-uuid'' (Count 3)],
      Xhr_open_single ''url'', Xhr_send_file, OnAborted,
      Session_delete ''FileComponent'' [''generated-uuid''], OnError UPLOAD_ABORTED]"
    by (simp add: example_defs eval_defs uploadFile_def reject_single_def)
  from component_id_invariant [OF c, of "[(True, Start),
         (True, Preflight_settled (Inr (Some (Single_target ''url'' [(''Content-Length'', ''9'')])))),
         (True, Abort),
         (True, Delete_settled 0 True)]"] c i e
  show ?thesis by simp
qed


section \<open>The retry governor\<close>

text \<open>
  A rejection with a counter of at most 6 is answered as follows: the counter is
  incremented, the back-off of \<open>2 ^ counter * 100\<close> ms (with the incremented counter) is
  logged and started, and nothing else changes; when the timer ends the same part is
  pushed on the backlog and the drive step resumed with the incremented counter.
\<close>

lemma governor_step:
  assumes "retry \<le> 6"
  shows "let attempt = retry + 1;
          v = run_microtask D online (Catch_failure q retry e) w
      in effects v = effects w @ [Warn_backing_off (part_number q) (2 ^ attempt * 100),
                                  Wait (2 ^ attempt * 100)] \<and>
         timers v = timers w @ [(2 ^ attempt * 100, q, attempt)] \<and>
         parts v = parts w \<and> uploadedParts v = uploadedParts w \<and>
         timer_fired D online' (length (timers w)) v =
           uploadNextChunk D online' attempt (v\<lparr>timers := timers w, parts := parts w @ [q]\<rparr>)"
  using assms by (simp add: run_microtask_def emit_def Let_def timer_fired_def)

lemma waits_append: "waits (xs @ ys) = waits xs @ waits ys"
  by (induction xs rule: waits.induct) simp_all

lemma uploadNextChunk_rel:
  assumes r: "\<And>u. R u u"
    and c: "\<And>u. R u (completeUpload D From_uploadNextChunk u)"
    and d: "\<And>u retry v.
      \<not> maxConcurrentConnections u \<le> length (activeConnections u) \<Longrightarrow> parts u \<noteq> [] \<Longrightarrow>
      R (register_chunk online (last (parts u)) retry (u\<lparr>parts := butlast (parts u)\<rparr>)) v \<Longrightarrow>
      R u (send_chunk online (last (parts u)) retry (nextXhr u)
             ((part_number (last (parts u)) - 1) * int (chunkSize u))
             ((part_number (last (parts u)) - 1) * int (chunkSize u) + int (chunkSize u)) v)"
  shows "R u (uploadNextChunk D online retry u)"
proof -
  have "D' = D \<Longrightarrow> online' = online \<Longrightarrow> R u (uploadNextChunk D' online' retry u)"
    for D' online'
  proof (induction D' online' retry u rule: uploadNextChunk.induct)
    case (1 D' online' retry u)
    show ?case
    proof (cases "maxConcurrentConnections u \<le> length (activeConnections u)")
      case True
      then show ?thesis by (simp add: uploadNextChunk_full r)
    next
      case open_slot: False
      show ?thesis
      proof (cases "parts u = []")
        case True
        with open_slot show ?thesis
          using "1.prems" by (simp add: uploadNextChunk_empty r c)
      next
        case False
        have "R (register_chunk online (last (parts u)) retry (u\<lparr>parts := butlast (parts u)\<rparr>))
            (uploadNextChunk D online 0
              (register_chunk online (last (parts u)) retry (u\<lparr>parts := butlast (parts u)\<rparr>)))"
          using "1.IH" [OF _ False refl refl refl] open_slot "1.prems" by simp
        from d [OF open_slot False this] show ?thesis
          using open_slot False "1.prems" by (simp add: uploadNextChunk_dispatch)
      qed
    qed
  qed
  then show ?thesis by simp
qed

lemma uploadNextChunk_online_frame:
  "online_frame u (uploadNextChunk D True retry u)"
proof (rule uploadNextChunk_rel)
  fix u show "online_frame u u" by (simp add: online_frame_def)
next
  fix u show "online_frame u (completeUpload D From_uploadNextChunk u)"
    by (simp add: online_frame_def completeUpload_def emit_def Let_def waits_append)
next
  fix u :: uploader and retry v
  assume open_slot: "\<not> maxConcurrentConnections u \<le> length (activeConnections u)"
    and ne: "parts u \<noteq> []"
    and f: "online_frame (register_chunk True (last (parts u)) retry (u\<lparr>parts := butlast (parts u)\<rparr>)) v"
  let ?w = "register_chunk True (last (parts u)) retry (u\<lparr>parts := butlast (parts u)\<rparr>)"
  have w: "microtasks ?w = microtasks u" "timers ?w = timers u" "uploadedParts ?w = uploadedParts u"
    "effects ?w = effects u" "parts ?w = butlast (parts u)"
    "connections ?w = connections u @ [(nextXhr u,
        \<lparr>conn_part = last (parts u), conn_retry = retry, conn_settled = False\<rparr>)]"
    "activeConnections ?w = AList.update (part_number (last (parts u)) - 1) (nextXhr u) (activeConnections u)"
    by (simp_all add: register_chunk_def Let_def)
  have sub: "set (butlast (parts u)) \<subseteq> set (parts u)"
    by (auto dest: in_set_butlastD)
  have conn: "map_of (connections v) j = Some c" if "map_of (connections u) j = Some c" for j c
  proof -
    from that have "map_of (connections ?w) j = Some c" by (simp add: w)
    with f show ?thesis by (simp add: online_frame_def)
  qed
  have reg: "map_of (activeConnections v) k = Some i"
    if "map_of (activeConnections u) k = Some i" and "\<forall>q \<in> set (parts u). part_number q - 1 \<noteq> k" for k i
  proof -
    from ne have "last (parts u) \<in> set (parts u)" by simp
    with that(2) have "part_number (last (parts u)) - 1 \<noteq> k" by blast
    with that(1) have "map_of (activeConnections ?w) k = Some i" by (simp add: w update_conv')
    moreover from that(2) sub have "\<forall>q \<in> set (parts ?w). part_number q - 1 \<noteq> k"
      by (auto simp: w)
    ultimately show ?thesis using f by (simp add: online_frame_def)
  qed
  from f have "microtasks v = microtasks u" "timers v = timers u"
    "mset (uploadedParts v) = mset (uploadedParts u)" "waits (effects v) = waits (effects u)"
    "set (parts v) \<subseteq> set (parts u)"
    using sub by (auto simp: online_frame_def w)
  with conn reg
  show "online_frame u (send_chunk True (last (parts u)) retry (nextXhr u)
             ((part_number (last (parts u)) - 1) * int (chunkSize u))
             ((part_number (last (parts u)) - 1) * int (chunkSize u) + int (chunkSize u)) v)"
    by (simp add: online_frame_def send_chunk_def emit_def waits_append)
qed

lemma drain_microtasks: "microtasks (drain D online u) = []"
proof (induction D online u rule: drain.induct)
  case (1 D online u)
  show ?case
  proof (cases "microtasks u")
    case Nil
    then show ?thesis by (simp add: drain_empty)
  next
    case (Cons m ms)
    with "1.IH" [OF Cons] show ?thesis by (simp add: drain.simps [of D online u])
  qed
qed

lemma run_microtasks:
  assumes "microtasks u = []"
  shows "microtasks (run D evs u) = []"
proof (cases evs rule: rev_cases)
  case Nil
  with assms show ?thesis by (simp add: run_def)
next
  case (snoc evs' ev)
  then show ?thesis
    by (cases ev) (simp add: run_def step_def drain_microtasks)
qed

lemma fresh_connection:
  assumes "session_inv cid u"
  shows "map_of (connections u) (nextXhr u) = None"
proof -
  from assms have "\<forall>(j, c) \<in> set (connections u). j < nextXhr u"
    by (simp add: session_inv_def list_all_iff)
  then have "nextXhr u \<notin> fst ` set (connections u)" by force
  then show ?thesis by (simp add: map_of_eq_None_iff)
qed

lemma fail_and_retry_round:
  fixes D :: deps
  assumes inv: "session_inv cid u" and q: "microtasks u = []"
    and a: "attempt_in_flight p r i u" and r: "r \<le> 6"
  defines "u1 \<equiv> step D True (Chunk_error i) u"
  defines "u2 \<equiv> step D True (Timer_fired (length (timers u1) - 1)) u1"
  shows "session_inv cid u2 \<and> microtasks u2 = [] \<and> attempt_in_flight p (Suc r) (nextXhr u1) u2 \<and>
    mset (uploadedParts u2) = mset (uploadedParts u) \<and>
    waits (effects u2) = waits (effects u) @ [2 ^ Suc r * 100] \<and> timers u2 = timers u"
proof -
  let ?key = "part_number p - 1"
  let ?ms = "2 ^ Suc r * 100 :: nat"
  from a have c: "map_of (connections u) i
      = Some \<lparr>conn_part = p, conn_retry = r, conn_settled = False\<rparr>"
    and reg: "map_of (activeConnections u) ?key = Some i"
    and uniq: "list_all (\<lambda>q. part_number q \<noteq> part_number p) (parts u)"
    by (simp_all add: attempt_in_flight_def)
  have fc: "fail_connection Upload_chunk_error True i u =
      u\<lparr>connections := AList.delete i (connections u),
        activeConnections := AList.delete ?key (activeConnections u),
        microtasks := [Catch_failure p r Upload_chunk_error],
        offlineListeners := removeAll i (offlineListeners u)\<rparr>"
    using c q by (simp add: fail_connection_def Let_def)
  have u1: "u1 =
      u\<lparr>connections := AList.delete i (connections u),
        activeConnections := AList.delete ?key (activeConnections u),
        microtasks := [],
        offlineListeners := removeAll i (offlineListeners u),
        timers := timers u @ [(?ms, p, Suc r)],
        effects := effects u @ [Warn_backing_off (part_number p) ?ms, Wait ?ms]\<rparr>"
    unfolding u1_def step_def
    using r by (simp add: fc drain_next drain_empty run_microtask_def emit_def Let_def)
  have inv1: "session_inv cid u1"
    unfolding u1_def using inv by (rule step_inv)
  define w where "w = u1\<lparr>timers := timers u, parts := parts u @ [p]\<rparr>"
  have tf: "timer_fired D True (length (timers u1) - 1) u1 = uploadNextChunk D True (Suc r) w"
    by (simp add: timer_fired_def u1 w_def nth_append)
  have slot: "\<not> maxConcurrentConnections w \<le> length (activeConnections w)"
  proof -
    from length_delete_less [OF reg] inv
    have "length (AList.delete ?key (activeConnections u)) < 6"
      by (simp add: session_inv_def)
    moreover from inv have "maxConcurrentConnections u = 6" by (simp add: session_inv_def)
    ultimately show ?thesis by (simp add: w_def u1)
  qed
  have ne: "parts w \<noteq> []" by (simp add: w_def)
  define w1 where "w1 = register_chunk True p (Suc r) (w\<lparr>parts := parts u\<rparr>)"
  define w2 where "w2 = uploadNextChunk D True 0 w1"
  have disp: "uploadNextChunk D True (Suc r) w =
      send_chunk True p (Suc r) (nextXhr u) ((part_number p - 1) * int (chunkSize u))
        ((part_number p - 1) * int (chunkSize u) + int (chunkSize u)) w2"
    unfolding uploadNextChunk_dispatch [OF slot ne] w2_def w1_def
    by (simp add: w_def u1)
  have w1: "microtasks w1 = []" "timers w1 = timers u" "uploadedParts w1 = uploadedParts u"
    "effects w1 = effects u @ [Warn_backing_off (part_number p) ?ms, Wait ?ms]"
    "parts w1 = parts u"
    "connections w1 = AList.delete i (connections u) @
       [(nextXhr u, \<lparr>conn_part = p, conn_retry = Suc r, conn_settled = False\<rparr>)]"
    "activeConnections w1 = AList.update ?key (nextXhr u) (AList.delete ?key (activeConnections u))"
    by (simp_all add: w1_def register_chunk_def Let_def w_def u1)
  have "map_of (AList.delete i (connections u)) (nextXhr u) = None"
    using fresh_connection [OF inv] by (simp add: delete_conv')
  then have c1: "map_of (connections w1) (nextXhr u)
      = Some \<lparr>conn_part = p, conn_retry = Suc r, conn_settled = False\<rparr>"
    by (simp add: w1 map_add_def)
  have r1: "map_of (activeConnections w1) ?key = Some (nextXhr u)"
    by (simp add: w1 update_conv')
  have k1: "\<forall>q \<in> set (parts w1). part_number q - 1 \<noteq> ?key"
    using uniq by (simp add: w1 list_all_iff)
  have f: "online_frame w1 w2"
    unfolding w2_def by (rule uploadNextChunk_online_frame)
  from f c1 have c2: "map_of (connections w2) (nextXhr u)
      = Some \<lparr>conn_part = p, conn_retry = Suc r, conn_settled = False\<rparr>"
    by (simp add: online_frame_def)
  from f r1 k1 have r2: "map_of (activeConnections w2) ?key = Some (nextXhr u)"
    by (simp add: online_frame_def)
  from f have m2: "microtasks w2 = []" and t2: "timers w2 = timers u"
    and up2: "mset (uploadedParts w2) = mset (uploadedParts u)"
    and wt2: "waits (effects w2) = waits (effects u) @ [?ms]"
    and p2: "set (parts w2) \<subseteq> set (parts u)"
    by (simp_all add: online_frame_def w1 waits_append)
  have u2: "u2 = send_chunk True p (Suc r) (nextXhr u) ((part_number p - 1) * int (chunkSize u))
        ((part_number p - 1) * int (chunkSize u) + int (chunkSize u)) w2"
    unfolding u2_def step_def event.case tf disp
    by (simp add: drain_empty send_chunk_def emit_def m2)
  have inv2: "session_inv cid u2"
    unfolding u2_def using inv1 by (rule step_inv)
  have n1: "nextXhr u1 = nextXhr u" by (simp add: u1)
  have a2: "attempt_in_flight p (Suc r) (nextXhr u1) u2"
    using c2 r2 p2 uniq
    by (auto simp: attempt_in_flight_def n1 u2 send_chunk_def emit_def list_all_iff)
  from inv2 a2 m2 t2 up2 wt2 show ?thesis
    by (simp add: u2 send_chunk_def emit_def waits_append)
qed


lemma fail_and_retry_rounds:
  fixes D :: deps
  shows "session_inv cid u \<Longrightarrow> microtasks u = [] \<Longrightarrow> attempt_in_flight p r i u \<Longrightarrow>
    r + k \<le> 7 \<Longrightarrow>
    (case fail_and_retry D k i u of
       (u', i') \<Rightarrow>
         session_inv cid u' \<and> microtasks u' = [] \<and> attempt_in_flight p (r + k) i' u' \<and>
         mset (uploadedParts u') = mset (uploadedParts u) \<and>
         waits (effects u') = waits (effects u) @ map (\<lambda>j. 2 ^ j * 100) [Suc r ..< Suc (r + k)] \<and>
         timers u' = timers u)"
proof (induction k arbitrary: u i r)
  case 0
  then show ?case by simp
next
  case (Suc k)
  define u1 where "u1 = step D True (Chunk_error i) u"
  define u2 where "u2 = step D True (Timer_fired (length (timers u1) - 1)) u1"
  from Suc.prems have r: "r \<le> 6" by simp
  note round = fail_and_retry_round [OF Suc.prems(1-3) r, of D, folded u1_def, folded u2_def]
  from round have inv2: "session_inv cid u2" and q2: "microtasks u2 = []"
    and a2: "attempt_in_flight p (Suc r) (nextXhr u1) u2"
    and m2: "mset (uploadedParts u2) = mset (uploadedParts u)"
    and w2: "waits (effects u2) = waits (effects u) @ [2 ^ Suc r * 100]"
    and t2: "timers u2 = timers u"
    by blast+
  obtain u' i' where fr: "fail_and_retry D k (nextXhr u1) u2 = (u', i')" by force
  have unfold: "fail_and_retry D (Suc k) i u = (u', i')"
    unfolding fail_and_retry.simps Let_def u1_def [symmetric] u2_def [symmetric] by (rule fr)
  from Suc.prems have "Suc r + k \<le> 7" by simp
  from Suc.IH [OF inv2 q2 a2 this, unfolded fr prod.case]
  have ih: "session_inv cid u'" "microtasks u' = []" "attempt_in_flight p (Suc r + k) i' u'"
    "mset (uploadedParts u') = mset (uploadedParts u2)"
    "waits (effects u') = waits (effects u2) @ map (\<lambda>j. 2 ^ j * 100) [Suc (Suc r) ..< Suc (Suc r + k)]"
    "timers u' = timers u2"
    by blast+
  have idx: "Suc r + k = r + Suc k" by simp
  have "[Suc r ..< Suc (r + Suc k)] = Suc r # [Suc (Suc r) ..< Suc (r + Suc k)]"
    by (rule upt_conv_Cons) simp
  then have "map (\<lambda>j. 2 ^ j * 100) [Suc r ..< Suc (r + Suc k)] =
      (2 ^ Suc r * 100 :: nat) # map (\<lambda>j. 2 ^ j * 100) [Suc (Suc r) ..< Suc (Suc r + k)]"
    unfolding idx by (simp only: list.map)
  with ih(5) w2 have wt: "waits (effects u') =
      waits (effects u) @ map (\<lambda>j. 2 ^ j * 100) [Suc r ..< Suc (r + Suc k)]"
    by (simp only: append_assoc append_Cons append_Nil)
  from ih(1,2) ih(3) [unfolded idx] ih(4) [unfolded m2] wt ih(6) [unfolded t2]
  show ?case unfolding unfold prod.case by blast
qed

lemma commit_once:
  fixes D :: deps
  assumes q: "microtasks u = []" and a: "attempt_in_flight p r i u" and e: "eTag \<noteq> []"
  shows "mset (uploadedParts (step D True (Chunk_done i 200 (Some eTag)) u)) =
    add_mset \<lparr>e_tag = unquote eTag, uploaded_part_number = part_number p\<rparr> (mset (uploadedParts u))"
proof -
  from a have c: "map_of (connections u) i
      = Some \<lparr>conn_part = p, conn_retry = r, conn_settled = False\<rparr>"
    by (simp add: attempt_in_flight_def)
  define v where "v =
      u\<lparr>connections := AList.delete i (connections u),
        uploadedParts := uploadedParts u @
          [\<lparr>e_tag = unquote eTag, uploaded_part_number = part_number p\<rparr>],
        activeConnections := AList.delete (part_number p - 1) (activeConnections u),
        offlineListeners := removeAll i (offlineListeners u)\<rparr>"
  have cd: "chunk_done i 200 (Some eTag) u = v\<lparr>microtasks := [Then_uploadNextChunk]\<rparr>"
    using c q e by (simp add: chunk_done_def Let_def truthy_def v_def)
  have "step D True (Chunk_done i 200 (Some eTag)) u
      = drain D True (uploadNextChunk D True 0 (v\<lparr>microtasks := []\<rparr>))"
    unfolding step_def event.case cd
    by (simp add: drain_next run_microtask_def)
  also have "\<dots> = uploadNextChunk D True 0 (v\<lparr>microtasks := []\<rparr>)"
    using uploadNextChunk_online_frame [of "v\<lparr>microtasks := []\<rparr>" D 0]
    by (simp add: drain_empty online_frame_def)
  finally show ?thesis
    using uploadNextChunk_online_frame [of "v\<lparr>microtasks := []\<rparr>" D 0]
    by (simp add: online_frame_def v_def)
qed

text \<open>
  In every state a session can reach, an attempt in flight with counter 0 whose
  connection fails \<open>k \<le> 6\<close> times with a network error, each failure followed by the end
  of its back-off, is in flight again with counter \<open>k\<close>; the delays were
  \<open>200, 400, \<dots>, 2 ^ k * 100\<close> ms; and when that attempt gets status 200 and an ETag,
  exactly one part is recorded more than before the first failure, with the number
  of the part and the ETag without its quotes.
\<close>

lemma online_retries_commit_once:
  fixes D :: deps
  assumes "constructor D file options = Inr u0" and "u = run D evs u0"
    and "attempt_in_flight p 0 i u" and "k \<le> 6" and "eTag \<noteq> []"
  shows
    "case fail_and_retry D k i u of
        (u', i') \<Rightarrow>
          attempt_in_flight p k i' u' \<and>
          waits (effects u') = waits (effects u) @ map (\<lambda>j. 2 ^ j * 100) [1 ..< Suc k] \<and>
          mset (uploadedParts (step D True (Chunk_done i' 200 (Some eTag)) u')) =
            add_mset \<lparr>e_tag = unquote eTag, uploaded_part_number = part_number p\<rparr>
              (mset (uploadedParts u))"
proof -
  have inv: "session_inv (componentId u0) u"
    unfolding assms(2) by (rule run_inv [OF constructor_inv [OF assms(1)]])
  have quiet: "microtasks u = []"
    unfolding assms(2) by (rule run_microtasks [OF constructor_fields(10) [OF assms(1)]])
  from assms(4) have "0 + k \<le> 7" by simp
  note rounds = fail_and_retry_rounds [OF inv quiet assms(3) this, of D]
  obtain u' i' where fr: "fail_and_retry D k i u = (u', i')" by force
  with rounds have r: "microtasks u' = []" "attempt_in_flight p k i' u'"
    "mset (uploadedParts u') = mset (uploadedParts u)"
    "waits (effects u') = waits (effects u) @ map (\<lambda>j. 2 ^ j * 100) [1 ..< Suc k]"
    by simp_all
  from commit_once [OF r(1,2) assms(5), of D] r(2,3,4) fr show ?thesis
    by simp
qed


section \<open>Giving up\<close>





lemma map_of_delete_None:
  "map_of xs j = None \<Longrightarrow> map_of (AList.delete i xs) j = None"
  by (simp add: delete_conv')












section \<open>Where the code departs from the specification\<close>



text \<open>
  C6. \<^verbatim>\<open>abort\<close> in a multipart session cancels the three connections in flight. Each
  abort reports the progress twice (0 percent, on the events \<^verbatim>\<open>abort\<close> and \<^verbatim>\<open>loadend\<close>), and
  the rejections go to the retry governor: three back-offs of 200 ms, no \<^verbatim>\<open>onAborted\<close>,
  no delete, no \<^verbatim>\<open>onError\<close>; when the timers end the three parts are sent again.
\<close>

theorem multipart_abort_retries:
  "effects (example_session
      [(True, Abort), (True, Timer_fired 0), (True, Timer_fired 0), (True, Timer_fired 0)]) =
     effects (example_session []) @
     [Xhr_abort 2, OnProgress (Number 0), OnProgress (Number 0),
      Xhr_abort 1, OnProgress (Number 0), OnProgress (Number 0),
      Xhr_abort 0, OnProgress (Number 0), OnProgress (Number 0),
      Warn_backing_off 1 200, Wait 200, Warn_backing_off 2 200, Wait 200,
      Warn_backing_off 3 200, Wait 200,
      Xhr_open 3 ''url-1'', Xhr_send 3 0 5242880,
      Xhr_open 4 ''url-2'', Xhr_send 4 5242880 10485760,
      Xhr_open 5 ''url-3'', Xhr_send 5 10485760 15728640] \<and>
   pendingDeletes (example_session [(True, Abort)]) = [] \<and>
   activeConnections (example_session
      [(True, Abort), (True, Timer_fired 0), (True, Timer_fired 0), (True, Timer_fired 0)]) =
     [(0, 3), (1, 4), (2, 5)]"
  by (simp add: example_defs eval_defs)




text \<open>
  C9. With \<^verbatim>\<open>navigator.onLine\<close> false when the parts are dispatched, each attempt is
  rejected and its connection is nevertheless registered, opened and sent; the
  back-offs start after the task, for parts 1, 2 and 3 in this order. If such a
  connection succeeds, the part is recorded, and recorded again when the retry
  succeeds.
\<close>

theorem offline_part_still_sent:
  "effects (run example_deps
      [(True, Start),
       (False, Preflight_settled (Inr (Some (Multi_target example_urls ''upload-id''))))]
      example_uploader) =
     [Session_call
        [Create_FileComponent ''generated-uuid'' ''movie'' [] 15728640 [],
         Get_upload_metadata ''movie'' 15728640 ''generated-uuid'' (Count 3)],
      Xhr_open 2 ''url-1'', Xhr_send 2 0 5242880,
      Xhr_open 1 ''url-2'', Xhr_send 1 5242880 10485760,
      Xhr_open 0 ''url-3'', Xhr_send 0 10485760 15728640,
      Warn_backing_off 1 200, Wait 200, Warn_backing_off 2 200, Wait 200,
      Warn_backing_off 3 200, Wait 200] \<and>
   activeConnections (run example_deps
      [(True, Start),
       (False, Preflight_settled (Inr (Some (Multi_target example_urls ''upload-id''))))]
      example_uploader) = [(2, 0), (1, 1), (0, 2)] \<and>
   map uploaded_part_number (uploadedParts (run example_deps
      [(True, Start),
       (False, Preflight_settled (Inr (Some (Multi_target example_urls ''upload-id'')))),
       (True, Chunk_done 0 200 (Some (quoted ''etag-3''))),
       (True, Timer_fired 2),
       (True, Chunk_done 3 200 (Some (quoted ''etag-3'')))]
      example_uploader)) = [3, 3]"
  by (simp add: example_defs eval_defs)


end
